theory Spec2Isabelle
  imports Complex_Main
begin

section \<open>Double-precision values\<close>

text \<open>
  The program computes with C++ \<open>double\<close>. A value is modelled as a real number or one
  of the three IEEE-754 special values. The special values follow IEEE-754: a quotient
  with divisor zero is an infinity or NaN, NaN compares false with everything, \<open>log 0\<close>
  is minus infinity. The arithmetic on finite doubles is exact: the rounding of a result
  to 53 bits, its overflow to an infinity and its underflow to zero are not modelled,
  and zero carries no sign. So \<open>exp\<close> of a finite value and \<open>pow\<close> of a non-zero one are
  never zero here, where the program's underflow to zero far enough down (\<open>exp x\<close> below
  \<open>x = -745\<close>), and a
  quotient \<open>(w \<cdot> d) / w\<close> is \<open>d\<close> here, where the program's can differ from \<open>d\<close> in the last
  bit. An equation between computed values below is an equation between the expressions
  the program evaluates.
\<close>

datatype dbl = Fin real | PInf | NInf | NaN

fun dneg :: "dbl \<Rightarrow> dbl" where
  "dneg (Fin x) = Fin (- x)"
| "dneg PInf = NInf"
| "dneg NInf = PInf"
| "dneg NaN = NaN"

fun dadd :: "dbl \<Rightarrow> dbl \<Rightarrow> dbl" where
  "dadd (Fin x) (Fin y) = Fin (x + y)"
| "dadd NaN b = NaN"
| "dadd a NaN = NaN"
| "dadd PInf NInf = NaN"
| "dadd NInf PInf = NaN"
| "dadd PInf b = PInf"
| "dadd a PInf = PInf"
| "dadd NInf b = NInf"
| "dadd a NInf = NInf"

definition dsub :: "dbl \<Rightarrow> dbl \<Rightarrow> dbl" where
  "dsub a b = dadd a (dneg b)"

fun dsgn_inf :: "bool \<Rightarrow> real \<Rightarrow> dbl" where
  "dsgn_inf pos x = (if x = 0 then NaN else if (0 < x) = pos then PInf else NInf)"

fun dmul :: "dbl \<Rightarrow> dbl \<Rightarrow> dbl" where
  "dmul (Fin x) (Fin y) = Fin (x * y)"
| "dmul NaN b = NaN"
| "dmul a NaN = NaN"
| "dmul (Fin x) PInf = dsgn_inf True x"
| "dmul (Fin x) NInf = dsgn_inf False x"
| "dmul PInf (Fin y) = dsgn_inf True y"
| "dmul NInf (Fin y) = dsgn_inf False y"
| "dmul PInf PInf = PInf"
| "dmul NInf NInf = PInf"
| "dmul PInf NInf = NInf"
| "dmul NInf PInf = NInf"

fun ddiv :: "dbl \<Rightarrow> dbl \<Rightarrow> dbl" where
  "ddiv (Fin x) (Fin y) = (if y \<noteq> 0 then Fin (x / y) else dsgn_inf True x)"
| "ddiv NaN b = NaN"
| "ddiv a NaN = NaN"
| "ddiv (Fin x) PInf = Fin 0"
| "ddiv (Fin x) NInf = Fin 0"
| "ddiv PInf (Fin y) = (if 0 \<le> y then PInf else NInf)"
| "ddiv NInf (Fin y) = (if 0 \<le> y then NInf else PInf)"
| "ddiv PInf b = NaN"
| "ddiv NInf b = NaN"

fun dlog :: "dbl \<Rightarrow> dbl" where
  "dlog (Fin x) = (if 0 < x then Fin (ln x) else if x = 0 then NInf else NaN)"
| "dlog PInf = PInf"
| "dlog NInf = NaN"
| "dlog NaN = NaN"

fun dexp :: "dbl \<Rightarrow> dbl" where
  "dexp (Fin x) = Fin (exp x)"
| "dexp PInf = PInf"
| "dexp NInf = Fin 0"
| "dexp NaN = NaN"

fun dabs :: "dbl \<Rightarrow> dbl" where
  "dabs (Fin x) = Fin \<bar>x\<bar>"
| "dabs PInf = PInf"
| "dabs NInf = PInf"
| "dabs NaN = NaN"

fun dle :: "dbl \<Rightarrow> dbl \<Rightarrow> bool" where
  "dle (Fin x) (Fin y) = (x \<le> y)"
| "dle NaN b = False"
| "dle a NaN = False"
| "dle NInf b = True"
| "dle a PInf = True"
| "dle a b = False"

fun dlt :: "dbl \<Rightarrow> dbl \<Rightarrow> bool" where
  "dlt (Fin x) (Fin y) = (x < y)"
| "dlt NaN b = False"
| "dlt a NaN = False"
| "dlt PInf b = False"
| "dlt a NInf = False"
| "dlt a b = True"

definition deq :: "dbl \<Rightarrow> dbl \<Rightarrow> bool" where
  "deq a b = (a \<noteq> NaN \<and> a = b)"

text \<open>\<open>pow(x, y)\<close> at an integer-valued exponent \<open>y\<close>; \<open>pow(x, 0) = 1\<close> for every \<open>x\<close>.\<close>

primrec dpown :: "dbl \<Rightarrow> nat \<Rightarrow> dbl" where
  "dpown x 0 = Fin 1"
| "dpown x (Suc n) = dmul x (dpown x n)"

definition dpow :: "dbl \<Rightarrow> int \<Rightarrow> dbl" where
  "dpow x k = (if 0 \<le> k then dpown x (nat k) else ddiv (Fin 1) (dpown x (nat (- k))))"

definition DBL_EPSILON :: dbl where
  "DBL_EPSILON = Fin (1 / 2 ^ 52)"

text \<open>Eigen reductions: the sum of a vector (0 when it is empty) and the dot product.\<close>

definition dsum :: "dbl list \<Rightarrow> dbl" where
  "dsum xs = foldr dadd xs (Fin 0)"

definition ddot :: "dbl list \<Rightarrow> dbl list \<Rightarrow> dbl" where
  "ddot xs ys = dsum (map2 dmul xs ys)"

definition of_count :: "nat \<Rightarrow> dbl" where
  "of_count n = Fin (real n)"

text \<open>
  The conversion of a \<open>double\<close> to \<open>float\<close>, which keeps 24 bits and has a far smaller
  range, is modelled as IEEE-754 has it: the nearest multiple of the quantum of the
  value's binade (\<open>2 powr -149\<close> for a value below \<open>2 powr -126\<close>), a tie going to the even
  multiple, and an infinity from \<open>2 ^ 128\<close> on. The \<open>float\<close> parameters \<open>lambda_s\<close> and
  \<open>max_lambda\<close> are taken as the values they hold.
\<close>

definition round_even :: "real \<Rightarrow> int" where
  "round_even y =
     (let f = \<lfloor>y\<rfloor>; r = y - of_int f
      in if r < 1 / 2 then f else if 1 / 2 < r then f + 1 else if even f then f else f + 1)"

definition float_quantum :: "real \<Rightarrow> real" where
  "float_quantum x = 2 powr (of_int (max \<lfloor>log 2 \<bar>x\<bar>\<rfloor> (- 126)) - 23)"

definition float_round :: "real \<Rightarrow> real" where
  "float_round x =
     (if x = 0 then 0 else of_int (round_even (x / float_quantum x)) * float_quantum x)"

fun to_float :: "dbl \<Rightarrow> dbl" where
  "to_float (Fin x) =
     (let y = float_round x
      in if 2 ^ 128 \<le> \<bar>y\<bar> then (if 0 < x then PInf else NInf) else Fin y)"
| "to_float PInf = PInf"
| "to_float NInf = NInf"
| "to_float NaN = NaN"


section \<open>Random streams and the parallel runtime\<close>

text \<open>
  The generator type (\<open>rng_type\<close> of \<open>rng_utils.hpp\<close>), the distributions of the C++
  standard library and the OpenMP runtime are parameters: \<open>exp_draw lam g\<close> is one draw
  of \<open>std::exponential_distribution<double>(lam)\<close> from the stream \<open>g\<close> with the stream
  after it, \<open>disc_draw ws g\<close> one draw of \<open>std::discrete_distribution<int>\<close> over the
  weights \<open>ws\<close>, \<open>raw_draw g\<close> is \<open>g()\<close>, \<open>seed_rng s\<close> is \<open>rng_type(s)\<close>, and
  \<open>thread_num thrds N i\<close> is the value of \<open>omp_get_thread_num()\<close> in iteration \<open>i\<close> of a
  statically scheduled loop of \<open>N\<close> iterations run by \<open>thrds\<close> threads.
\<close>

record 'g rng_ops =
  exp_draw :: "dbl \<Rightarrow> 'g \<Rightarrow> dbl \<times> 'g"
  disc_draw :: "dbl list \<Rightarrow> 'g \<Rightarrow> nat \<times> 'g"
  raw_draw :: "'g \<Rightarrow> nat \<times> 'g"
  seed_rng :: "nat \<Rightarrow> 'g"
  thread_num :: "nat \<Rightarrow> nat \<Rightarrow> nat \<Rightarrow> nat"

fun rexp_std :: "'g rng_ops \<Rightarrow> nat \<Rightarrow> dbl \<Rightarrow> 'g \<Rightarrow> dbl list \<times> 'g" where
  "rexp_std ops 0 lam g = ([], g)"
| "rexp_std ops (Suc n) lam g =
     (let (x, g1) = exp_draw ops lam g; (xs, g2) = rexp_std ops n lam g1 in (x # xs, g2))"

fun rdiscrete_std :: "'g rng_ops \<Rightarrow> nat \<Rightarrow> dbl list \<Rightarrow> 'g \<Rightarrow> nat list \<times> 'g" where
  "rdiscrete_std ops 0 ws g = ([], g)"
| "rdiscrete_std ops (Suc n) ws g =
     (let (x, g1) = disc_draw ops ws g; (xs, g2) = rdiscrete_std ops n ws g1 in (x # xs, g2))"

text \<open>\<open>Context::get_auxiliary_rngs\<close>: one new stream per thread, seeded from the root.\<close>

fun get_auxiliary_rngs :: "'g rng_ops \<Rightarrow> nat \<Rightarrow> 'g \<Rightarrow> 'g list \<times> 'g" where
  "get_auxiliary_rngs ops 0 rng = ([], rng)"
| "get_auxiliary_rngs ops (Suc n) rng =
     (let (s, rng1) = raw_draw ops rng; (gs, rng2) = get_auxiliary_rngs ops n rng1
      in (seed_rng ops s # gs, rng2))"


section \<open>The model\<close>

text \<open>
  The poset is a Boost adjacency list over the vertices \<open>0..<p\<close>, here the list of its
  edges \<open>(u, v)\<close> for \<open>u \<rightarrow> v\<close>. The field \<open>_children\<close> is not used by any function below.
\<close>

type_synonym Poset = "(nat \<times> nat) list"

record Model =
  poset :: Poset
  topo_path :: "nat list"
  cycle :: bool
  reduction_flag :: bool
  lambda :: "dbl list"
  lambda_s :: dbl
  epsilon :: dbl
  llhood :: dbl
  msize :: nat

record DataImportanceSampling =
  is_w :: "dbl list"
  is_dist :: "nat list"
  is_Tdiff :: "dbl list list"

record ControlEM =
  max_iter :: nat
  update_step_size :: nat
  tol :: dbl
  max_lambda :: dbl

text \<open>
  The constructor \<open>Model(edge_list, p, lambda_s)\<close> leaves \<open>_lambda\<close>, \<open>_epsilon\<close> and
  \<open>_llhood\<close> unset: \<open>junk\<close> stands for what the memory holds.
\<close>

definition new_Model :: "Poset \<Rightarrow> nat \<Rightarrow> dbl \<Rightarrow> dbl \<Rightarrow> Model" where
  "new_Model edge_list p lam_s junk =
     \<lparr>poset = edge_list, topo_path = [], cycle = False, reduction_flag = False,
      lambda = replicate p junk, lambda_s = lam_s, epsilon = junk, llhood = junk,
      msize = p\<rparr>"

text \<open>
  Modelled from the spec: the setters of \<open>Model\<close> are declared in \<open>mcem.hpp\<close> and defined
  outside the sources at hand. "Write back \<open>lambda\<close>, \<open>\<epsilon>\<close>, \<open>llhood\<close>"; with a bound, "clamping:
  \<open>lambda_j \<leftarrow> min(lambda_j, max_lambda)\<close>", "treat non-finite as \<open>max_lambda\<close>".
\<close>

definition set_lambda :: "Model \<Rightarrow> dbl list \<Rightarrow> Model" where
  "set_lambda m l = m\<lparr>lambda := l\<rparr>"

definition clamp_lambda :: "dbl \<Rightarrow> dbl \<Rightarrow> dbl" where
  "clamp_lambda mx x = (case x of Fin a \<Rightarrow> (if dlt mx x then mx else x) | _ \<Rightarrow> mx)"

definition set_lambda_max :: "Model \<Rightarrow> dbl list \<Rightarrow> dbl \<Rightarrow> Model" where
  "set_lambda_max m l mx = m\<lparr>lambda := map (clamp_lambda mx) l\<rparr>"

definition set_epsilon :: "Model \<Rightarrow> dbl \<Rightarrow> Model" where
  "set_epsilon m e = m\<lparr>epsilon := e\<rparr>"

definition set_llhood :: "Model \<Rightarrow> dbl \<Rightarrow> Model" where
  "set_llhood m l = m\<lparr>llhood := l\<rparr>"

text \<open>
  Modelled from the spec: \<open>Model::has_cycles\<close> is defined outside the sources at hand.
  It "records whether the graph is acyclic": the flag \<open>cycle\<close> is set when some vertex
  reaches itself along one edge or more.
\<close>

definition directed_cycle :: "Poset \<Rightarrow> bool" where
  "directed_cycle es = (\<exists>v \<in> set (map fst es). (v, v) \<in> (set es)\<^sup>+)"

definition has_cycles :: "Model \<Rightarrow> Model" where
  "has_cycles m = m\<lparr>cycle := directed_cycle (poset m)\<rparr>"

text \<open>
  Modelled from the spec: \<open>adjacency_mat2list\<close> is defined outside the sources at hand.
  "Entry \<open>(u, v) = 1\<close> iff edge \<open>u \<rightarrow> v\<close> exists."
\<close>

definition adjacency_mat2list :: "int list list \<Rightarrow> Poset" where
  "adjacency_mat2list mat =
     concat (map (\<lambda>u. map (\<lambda>v. (u, v)) (filter (\<lambda>v. mat ! u ! v = 1) [0..<length (mat ! u)]))
       [0..<length mat])"


section \<open>Kernels\<close>

definition bernoulli_guarded :: "dbl \<Rightarrow> nat \<Rightarrow> dbl \<Rightarrow> dbl" where
  "bernoulli_guarded eps p d =
     dadd (dmul (dlog (dadd eps DBL_EPSILON)) d)
          (dmul (dlog (dsub (dsub (Fin 1) eps) DBL_EPSILON)) (dsub (of_count p) d))"

definition log_bernoulli_process :: "dbl list \<Rightarrow> dbl \<Rightarrow> nat \<Rightarrow> dbl list" where
  "log_bernoulli_process dist_v eps p =
     (if deq eps (Fin 0)
      then map (\<lambda>d. if \<not> deq d (Fin 0) then bernoulli_guarded eps p d else Fin 0) dist_v
      else map (\<lambda>d. dadd (dmul (dlog eps) d)
                          (dmul (dlog (dsub (Fin 1) eps)) (dsub (of_count p) d))) dist_v)"

definition complete_log_likelihood ::
  "dbl list \<Rightarrow> dbl \<Rightarrow> dbl list list \<Rightarrow> dbl list \<Rightarrow> dbl \<Rightarrow> dbl" where
  "complete_log_likelihood lam eps Tdiff dist_v W =
     (let p = length lam;
          llhood0 = dsub (dmul W (dsum (map dlog lam)))
                         (dsum (map (\<lambda>row. ddot row lam) Tdiff))
      in if deq eps (Fin 0)
         then fold (\<lambda>d ll. if \<not> deq d (Fin 0) then dadd ll (bernoulli_guarded eps p d) else ll)
                dist_v llhood0
         else dadd llhood0
                (dadd (dmul (dlog eps) (dsum dist_v))
                      (dmul (dlog (dsub (Fin 1) eps))
                            (dsum (map (\<lambda>d. dsub (of_count p) d) dist_v)))))"

text \<open>\<open>hamming_dist_mat\<close>: per row of \<open>x\<close>, the number of columns that differ from \<open>y\<close>.\<close>

definition hamming_dist_mat :: "bool list list \<Rightarrow> bool list \<Rightarrow> nat list" where
  "hamming_dist_mat x y = map (\<lambda>row. length (filter (\<lambda>(a, b). a \<noteq> b) (zip row y))) x"


section \<open>The genotype simulator\<close>

text \<open>
  \<open>sample_genotypes\<close> overwrites every column of \<open>T_events\<close> (an \<open>N \<times> p\<close> matrix) before
  it reads it, so the model builds the matrix from the draws. Matrices are lists of rows.
  Beside what the C++ function returns and writes through its references, the result
  holds the scratch matrix \<open>T_events_sum\<close> of occurrence times. Eigen and
  \<open>std::vector\<close> do not check an index in a release build: a read out of range is
  undefined in C++ and is \<open>xs ! i\<close> here, a write out of range leaves the list as it is,
  and no result below depends on either.
\<close>

record 'g simulation =
  sim_obs :: "bool list list"
  sim_T_events :: "dbl list list"
  sim_T_sampling :: "dbl list"
  sim_T_events_sum :: "dbl list list"
  sim_rng :: 'g

fun draw_columns :: "'g rng_ops \<Rightarrow> nat \<Rightarrow> dbl list \<Rightarrow> 'g \<Rightarrow> dbl list list \<times> 'g" where
  "draw_columns ops N [] g = ([], g)"
| "draw_columns ops N (lam # lams) g =
     (let (c, g1) = rexp_std ops N lam g; (cs, g2) = draw_columns ops N lams g1
      in (c # cs, g2))"

definition rows_of_columns :: "nat \<Rightarrow> 'a list list \<Rightarrow> 'a list list" where
  "rows_of_columns N cols = map (\<lambda>i. map (\<lambda>c. c ! i) cols) [0..<N]"

definition in_edges :: "nat \<Rightarrow> Poset \<Rightarrow> (nat \<times> nat) list" where
  "in_edges v es = filter (\<lambda>e. snd e = v) es"

definition parent_max :: "Poset \<Rightarrow> nat \<Rightarrow> dbl list \<Rightarrow> dbl" where
  "parent_max es v row =
     fold (\<lambda>e T_max. if dlt T_max (row ! fst e) then row ! fst e else T_max)
       (in_edges v es) (Fin 0)"

definition visit ::
  "Poset \<Rightarrow> dbl list list \<Rightarrow> dbl list \<Rightarrow> nat \<Rightarrow> nat \<Rightarrow>
   dbl list list \<times> bool list list \<Rightarrow> dbl list list \<times> bool list list" where
  "visit es T_events T_sampling v i st =
     (let (T_events_sum, obs) = st;
          T_max = parent_max es v (T_events_sum ! i);
          s = dadd (T_events ! i ! v) T_max;
          T_events_sum' = T_events_sum[i := (T_events_sum ! i)[v := s]]
      in (T_events_sum',
          if dle s (T_sampling ! i) then obs[i := (obs ! i)[v := True]] else obs))"

definition sample_genotypes ::
  "'g rng_ops \<Rightarrow> nat \<Rightarrow> Model \<Rightarrow> dbl list \<Rightarrow> 'g \<Rightarrow> bool \<Rightarrow> 'g simulation" where
  "sample_genotypes ops N model T_sampling0 rng sampling_times_available =
     (let p = msize model;
          (cols, rng1) = draw_columns ops N (map (\<lambda>j. lambda model ! j) [0..<p]) rng;
          T_events = rows_of_columns N cols;
          (T_sampling, rng2) =
             (if \<not> sampling_times_available then rexp_std ops N (lambda_s model) rng1
              else (T_sampling0, rng1));
          (T_events_sum, obs) =
             fold (\<lambda>v st. fold (visit (poset model) T_events T_sampling v) [0..<N] st)
               (rev (topo_path model))
               (replicate N (replicate p (Fin 0)), replicate N (replicate p False))
      in \<lparr>sim_obs = obs, sim_T_events = T_events, sim_T_sampling = T_sampling,
          sim_T_events_sum = T_events_sum, sim_rng = rng2\<rparr>)"


section \<open>The importance sampler\<close>

text \<open>
  \<open>uninit\<close> stands for the contents of the record \<open>DataImportanceSampling(L, p)\<close> as
  allocated: Eigen does not initialise it. \<open>unsigned int K = p * L\<close> keeps the low 32
  bits of the product.
\<close>

definition pool_size :: "nat \<Rightarrow> nat \<Rightarrow> nat" where
  "pool_size p L = (p * L) mod 2 ^ 32"

definition proposal_weight :: "dbl \<Rightarrow> nat \<Rightarrow> nat \<Rightarrow> dbl" where
  "proposal_weight eps p d = dmul (dpow eps (int d)) (dpow (dsub (Fin 1) eps) (int p - int d))"

definition importance_weight ::
  "'g rng_ops \<Rightarrow> DataImportanceSampling \<Rightarrow> bool list \<Rightarrow> nat \<Rightarrow> Model \<Rightarrow> dbl \<Rightarrow> string \<Rightarrow>
   nat \<Rightarrow> 'g \<Rightarrow> bool \<Rightarrow> DataImportanceSampling \<times> 'g" where
  "importance_weight ops uninit genotype L model time sampling version rng
     sampling_times_available =
     (let p = msize model in
      if sampling = ''forward'' then
        (let sim = sample_genotypes ops L model (replicate L time) rng sampling_times_available;
             dist_v = hamming_dist_mat (sim_obs sim) genotype
         in (\<lparr>is_w = map (proposal_weight (epsilon model) p) dist_v, is_dist = dist_v,
              is_Tdiff = sim_T_events sim\<rparr>, sim_rng sim))
      else if sampling = ''add-remove'' then (uninit, rng)
      else if sampling = ''rejection'' then
        (let K = pool_size p L;
             sim = sample_genotypes ops K model (replicate K time) rng sampling_times_available;
             Tdiff_pool = sim_T_events sim;
             dist_pool = hamming_dist_mat (sim_obs sim) genotype;
             q_prob = map (proposal_weight (epsilon model) p) dist_pool;
             random = deq (dsum q_prob) (Fin 0);
             q_prob1 = (if random then map (\<lambda>q. Fin 1) q_prob else q_prob);
             q_prob_sum = dsum q_prob1;
             q_prob2 = map (\<lambda>q. ddiv q q_prob_sum) q_prob1;
             (idxs_sample, rng1) = rdiscrete_std ops L q_prob2 (sim_rng sim);
             dist_v = map (\<lambda>idx. dist_pool ! idx) idxs_sample;
             Tdiff = map (\<lambda>idx. Tdiff_pool ! idx) idxs_sample
         in (\<lparr>is_w = (if random
                       then map dexp (log_bernoulli_process (map of_count dist_v) (epsilon model) p)
                       else replicate L (ddiv q_prob_sum (of_count (length dist_pool)))),
              is_dist = dist_v, is_Tdiff = Tdiff\<rparr>, rng1))
      else (uninit, rng))"


section \<open>The MCEM driver\<close>

text \<open>
  The loop of \<open>obs_log_likelihood\<close> and of the E-step over the observations. The
  iterations are independent but for the streams: iteration \<open>i\<close> draws from the stream
  of its thread, and the iterations of one thread run in increasing order.
\<close>

fun importance_weight_each ::
  "'g rng_ops \<Rightarrow> DataImportanceSampling \<Rightarrow> bool list list \<Rightarrow> nat \<Rightarrow> Model \<Rightarrow> dbl list \<Rightarrow>
   string \<Rightarrow> nat \<Rightarrow> bool \<Rightarrow> nat \<Rightarrow> nat list \<Rightarrow> 'g list \<Rightarrow>
   DataImportanceSampling list \<times> 'g list" where
  "importance_weight_each ops uninit obs L model times_v sampling version avail thrds [] rngs =
     ([], rngs)"
| "importance_weight_each ops uninit obs L model times_v sampling version avail thrds (i # idxs)
     rngs =
     (let t = thread_num ops thrds (length obs) i;
          (r, g) = importance_weight ops uninit (obs ! i) L model (times_v ! i) sampling version
                     (rngs ! t) avail;
          (rs, rngs') = importance_weight_each ops uninit obs L model times_v sampling version
                          avail thrds idxs (rngs[t := g])
      in (r # rs, rngs'))"

text \<open>
  \<open>expected_dist(i)\<close> and the row \<open>expected_Tdiff.row(i)\<close> of one observation. The
  quotients are exact here; the program rounds the sum of the products and the quotient,
  so that its \<open>expected_dist(i)\<close> can exceed the largest distance in the last bit.
\<close>

definition expected_stats :: "nat \<Rightarrow> DataImportanceSampling \<Rightarrow> dbl \<times> dbl list" where
  "expected_stats p r =
     (ddiv (ddot (is_w r) (map of_count (is_dist r))) (dsum (is_w r)),
      map (\<lambda>j. ddiv (ddot (map (\<lambda>row. row ! j) (is_Tdiff r)) (is_w r)) (dsum (is_w r)))
        [0..<p])"

text \<open>
  The M-step of an iteration, from the statistics of the E-step; \<open>W\<close> is the local
  \<open>float W = weights.sum()\<close> of \<open>MCEM_hcbn\<close>.
\<close>

definition m_step ::
  "ControlEM \<Rightarrow> Model \<Rightarrow> dbl list \<Rightarrow> dbl \<Rightarrow> nat \<Rightarrow> dbl list \<Rightarrow> dbl list list \<Rightarrow> Model"
  where
  "m_step control_EM model weights W N expected_dist expected_Tdiff =
     (let p = msize model;
          model1 = set_epsilon model (ddiv (dsum expected_dist) (of_count (N * p)));
          Tdiff_colsum = map (\<lambda>j. ddot weights (map (\<lambda>row. row ! j) expected_Tdiff)) [0..<p]
      in set_lambda_max model1 (map (\<lambda>s. ddiv (Fin 1) (ddiv s W)) Tdiff_colsum)
           (max_lambda control_EM))"

record 'g em_state =
  em_model :: Model
  em_ctx :: 'g
  em_update_step_size :: nat
  em_avg_lambda :: "dbl list"
  em_avg_lambda_current :: "dbl list"
  em_avg_eps :: dbl
  em_avg_llhood :: dbl
  em_llhood :: dbl
  em_avg_eps_current :: dbl
  em_tol_comparison :: bool

datatype 'a flow = Break 'a | Continue 'a

definition u32_add :: "nat \<Rightarrow> nat \<Rightarrow> nat" where
  "u32_add a b = (a + b) mod 2 ^ 32"

definition u32_sub :: "nat \<Rightarrow> nat \<Rightarrow> nat" where
  "u32_sub a b = (a + (2 ^ 32 - b mod 2 ^ 32)) mod 2 ^ 32"

text \<open>The block \<open>if (iter == update_step_size)\<close> at the head of the loop body.\<close>

definition window_boundary :: "ControlEM \<Rightarrow> nat \<Rightarrow> 'g em_state \<Rightarrow> 'g em_state flow" where
  "window_boundary control_EM iter st =
     (if iter = em_update_step_size st then
        (let step = of_count (update_step_size control_EM);
             st1 = st\<lparr>em_avg_lambda_current := map (\<lambda>x. ddiv x step) (em_avg_lambda_current st),
                      em_avg_eps_current := ddiv (em_avg_eps_current st) step,
                      em_avg_llhood := ddiv (em_avg_llhood st) step\<rparr>
         in if em_tol_comparison st1 \<and>
               dle (dabs (dsub (em_avg_eps st1) (em_avg_eps_current st1))) (tol control_EM) \<and>
               list_all (\<lambda>(a, b). dle (dabs (dsub a b)) (tol control_EM))
                 (zip (em_avg_lambda st1) (em_avg_lambda_current st1))
            then Break st1
            else Continue (st1\<lparr>em_avg_lambda := em_avg_lambda_current st1,
                   em_avg_eps := em_avg_eps_current st1,
                   em_update_step_size :=
                     u32_add (em_update_step_size st1) (update_step_size control_EM),
                   em_tol_comparison := True,
                   em_avg_lambda_current := replicate (msize (em_model st1)) (Fin 0),
                   em_avg_eps_current := Fin 0,
                   em_avg_llhood := Fin 0\<rparr>))
      else Continue st)"

text \<open>E-step, M-step, the log-likelihood of the iteration and the window sums.\<close>

definition em_iteration ::
  "'g rng_ops \<Rightarrow> DataImportanceSampling \<Rightarrow> bool list list \<Rightarrow> dbl list \<Rightarrow> dbl list \<Rightarrow> nat \<Rightarrow>
   string \<Rightarrow> nat \<Rightarrow> ControlEM \<Rightarrow> bool \<Rightarrow> nat \<Rightarrow> 'g em_state \<Rightarrow> 'g em_state" where
  "em_iteration ops uninit obs times_v weights L sampling version control_EM avail thrds st =
     (let model = em_model st; p = msize model; N = length obs;
          W = to_float (dsum weights);
          (rngs, ctx1) = get_auxiliary_rngs ops thrds (em_ctx st);
          (rs, rngs') = importance_weight_each ops uninit obs L model times_v sampling version
                          avail thrds [0..<N] rngs;
          expected_dist = map (\<lambda>r. fst (expected_stats p r)) rs;
          expected_Tdiff = map (\<lambda>r. snd (expected_stats p r)) rs;
          model' = m_step control_EM model weights W N expected_dist expected_Tdiff;
          ll = complete_log_likelihood (lambda model') (epsilon model') expected_Tdiff
                 expected_dist W
      in st\<lparr>em_model := model', em_ctx := ctx1, em_llhood := ll,
            em_avg_lambda_current := map2 dadd (em_avg_lambda_current st) (lambda model'),
            em_avg_eps_current := dadd (em_avg_eps_current st) (epsilon model'),
            em_avg_llhood := dadd (em_avg_llhood st) ll\<rparr>)"

text \<open>The block \<open>if (iter + 1 == control_EM.max_iter)\<close> at the end of the loop body.\<close>

definition num_iter :: "ControlEM \<Rightarrow> 'g em_state \<Rightarrow> nat" where
  "num_iter control_EM st =
     u32_add (u32_sub (max_iter control_EM) (em_update_step_size st))
       (update_step_size control_EM)"

definition final_average :: "ControlEM \<Rightarrow> 'g em_state \<Rightarrow> 'g em_state" where
  "final_average control_EM st =
     (let n = of_count (num_iter control_EM st)
      in st\<lparr>em_avg_lambda_current := map (\<lambda>x. ddiv x n) (em_avg_lambda_current st),
            em_avg_eps_current := ddiv (em_avg_eps_current st) n,
            em_avg_llhood := ddiv (em_avg_llhood st) n\<rparr>)"

definition em_body ::
  "'g rng_ops \<Rightarrow> DataImportanceSampling \<Rightarrow> bool list list \<Rightarrow> dbl list \<Rightarrow> dbl list \<Rightarrow> nat \<Rightarrow>
   string \<Rightarrow> nat \<Rightarrow> ControlEM \<Rightarrow> bool \<Rightarrow> nat \<Rightarrow> nat \<Rightarrow> 'g em_state \<Rightarrow> 'g em_state flow" where
  "em_body ops uninit obs times_v weights L sampling version control_EM avail thrds iter st =
     (case window_boundary control_EM iter st of
        Break st1 \<Rightarrow> Break st1
      | Continue st1 \<Rightarrow>
          (let st2 = em_iteration ops uninit obs times_v weights L sampling version control_EM
                       avail thrds st1
           in Continue (if iter + 1 = max_iter control_EM then final_average control_EM st2
                        else st2)))"

text \<open>
  \<open>for (iter = 0; iter < max_iter; ++iter)\<close>: \<open>em_loop \<dots> k iter st\<close> runs the \<open>k\<close>
  iterations from \<open>iter\<close> on, up to a \<open>break\<close>.
\<close>

primrec em_loop ::
  "'g rng_ops \<Rightarrow> DataImportanceSampling \<Rightarrow> bool list list \<Rightarrow> dbl list \<Rightarrow> dbl list \<Rightarrow> nat \<Rightarrow>
   string \<Rightarrow> nat \<Rightarrow> ControlEM \<Rightarrow> bool \<Rightarrow> nat \<Rightarrow> nat \<Rightarrow> nat \<Rightarrow> 'g em_state \<Rightarrow> 'g em_state flow"
  where
  "em_loop ops uninit obs times_v weights L sampling version control_EM avail thrds 0 iter st =
     Continue st"
| "em_loop ops uninit obs times_v weights L sampling version control_EM avail thrds (Suc k) iter
     st =
     (case em_body ops uninit obs times_v weights L sampling version control_EM avail thrds iter
             st of
        Break st1 \<Rightarrow> Break st1
      | Continue st1 \<Rightarrow>
          em_loop ops uninit obs times_v weights L sampling version control_EM avail thrds k
            (Suc iter) st1)"

definition em_init :: "Model \<Rightarrow> ControlEM \<Rightarrow> 'g \<Rightarrow> 'g em_state" where
  "em_init model control_EM ctx =
     \<lparr>em_model = model, em_ctx = ctx, em_update_step_size = update_step_size control_EM,
      em_avg_lambda = replicate (msize model) (Fin 0),
      em_avg_lambda_current = replicate (msize model) (Fin 0),
      em_avg_eps = Fin 0, em_avg_llhood = Fin 0, em_llhood = Fin 0,
      em_avg_eps_current = Fin 0, em_tol_comparison = True\<rparr>"

fun flow_state :: "'a flow \<Rightarrow> 'a" where
  "flow_state (Break s) = s"
| "flow_state (Continue s) = s"

text \<open>\<open>MCEM_hcbn\<close> returns the averaged log-likelihood; the model and the context are
  passed by reference, and come back here beside it.\<close>

definition MCEM_hcbn ::
  "'g rng_ops \<Rightarrow> DataImportanceSampling \<Rightarrow> Model \<Rightarrow> bool list list \<Rightarrow> dbl list \<Rightarrow> dbl list \<Rightarrow>
   nat \<Rightarrow> string \<Rightarrow> nat \<Rightarrow> ControlEM \<Rightarrow> bool \<Rightarrow> nat \<Rightarrow> 'g \<Rightarrow> dbl \<times> Model \<times> 'g" where
  "MCEM_hcbn ops uninit model obs times_v weights L sampling version control_EM avail thrds ctx =
     (let st = flow_state
                 (em_loop ops uninit obs times_v weights L sampling version control_EM avail
                    thrds (max_iter control_EM) 0 (em_init model control_EM ctx));
          model1 = set_lambda (em_model st) (em_avg_lambda_current st);
          model2 = set_epsilon model1 (em_avg_eps_current st);
          model3 = set_llhood model2 (em_avg_llhood st)
      in (em_avg_llhood st, model3, em_ctx st))"


section \<open>Entry points\<close>

text \<open>
  The functions exported to R catch every C++ exception and raise an R error
  (\<open>handle_exceptions\<close>); the only exception thrown is \<open>not_acyclic_exception\<close>. The other
  error kinds are those the specification lists. \<open>Model::topological_sort\<close> is defined
  outside the sources at hand: \<open>tsort\<close> stands for it, from the edges and the number of
  vertices to the stored \<open>topo_path\<close>.
\<close>

datatype error = NotAcyclic | ShapeMismatch | OutOfRange | NotImplemented | Numerical

definition checked_Model ::
  "(Poset \<Rightarrow> nat \<Rightarrow> nat list) \<Rightarrow> Model \<Rightarrow> error + Model" where
  "checked_Model tsort M0 =
     (let M = has_cycles M0
      in if cycle M then Inl NotAcyclic
         else Inr (M\<lparr>topo_path := tsort (poset M) (msize M)\<rparr>))"

definition obs_log_likelihood ::
  "'g rng_ops \<Rightarrow> (Poset \<Rightarrow> nat \<Rightarrow> nat list) \<Rightarrow> DataImportanceSampling \<Rightarrow> dbl \<Rightarrow>
   bool list list \<Rightarrow> int list list \<Rightarrow> dbl list \<Rightarrow> dbl \<Rightarrow> dbl list \<Rightarrow> nat \<Rightarrow> string \<Rightarrow> nat \<Rightarrow>
   'g \<Rightarrow> dbl \<Rightarrow> bool \<Rightarrow> nat \<Rightarrow> error + dbl \<times> 'g" where
  "obs_log_likelihood ops tsort uninit junk obs poset_mat lam eps times_v L sampling version ctx
     lam_s avail thrds =
     (let p = length poset_mat; N = length obs;
          M0 = set_epsilon (set_lambda (new_Model (adjacency_mat2list poset_mat) p lam_s junk)
                 lam) eps
      in case checked_Model tsort M0 of
           Inl e \<Rightarrow> Inl e
         | Inr model \<Rightarrow>
             (let (rngs, ctx1) = get_auxiliary_rngs ops thrds ctx;
                  (rs, rngs') = importance_weight_each ops uninit obs L model times_v sampling
                                  version avail thrds [0..<N] rngs
              in Inr (fold (\<lambda>r ll. dadd ll (dlog (ddiv (dsum (is_w r)) (of_count L)))) rs
                        (Fin 0), ctx1)))"

definition export_obs_log_likelihood ::
  "'g rng_ops \<Rightarrow> (Poset \<Rightarrow> nat \<Rightarrow> nat list) \<Rightarrow> DataImportanceSampling \<Rightarrow> dbl \<Rightarrow>
   bool list list \<Rightarrow> int list list \<Rightarrow> dbl list \<Rightarrow> dbl \<Rightarrow> dbl list \<Rightarrow> nat \<Rightarrow> string \<Rightarrow> nat \<Rightarrow>
   dbl \<Rightarrow> bool \<Rightarrow> nat \<Rightarrow> nat \<Rightarrow> error + dbl" where
  "export_obs_log_likelihood ops tsort uninit junk obs poset_mat lam eps times_v L sampling
     version lam_s avail thrds seed =
     (case obs_log_likelihood ops tsort uninit junk obs poset_mat lam eps times_v L sampling
             version (seed_rng ops seed) lam_s avail thrds of
        Inl e \<Rightarrow> Inl e
      | Inr (ll, ctx) \<Rightarrow> Inr ll)"

definition export_MCEM_hcbn ::
  "'g rng_ops \<Rightarrow> (Poset \<Rightarrow> nat \<Rightarrow> nat list) \<Rightarrow> DataImportanceSampling \<Rightarrow> dbl \<Rightarrow>
   dbl list \<Rightarrow> int list list \<Rightarrow> bool list list \<Rightarrow> dbl list \<Rightarrow> dbl \<Rightarrow> dbl \<Rightarrow> dbl list \<Rightarrow> nat \<Rightarrow>
   string \<Rightarrow> nat \<Rightarrow> nat \<Rightarrow> nat \<Rightarrow> dbl \<Rightarrow> dbl \<Rightarrow> bool \<Rightarrow> nat \<Rightarrow> bool \<Rightarrow> nat \<Rightarrow>
   error + dbl list \<times> dbl \<times> dbl" where
  "export_MCEM_hcbn ops tsort uninit junk ilambda poset_mat obs times_v lam_s eps weights L
     sampling version max_iter' update_step_size' tol' max_lambda' avail thrds verbose seed =
     (let p = length poset_mat;
          M0 = set_epsilon (set_lambda (new_Model (adjacency_mat2list poset_mat) p lam_s junk)
                 ilambda) eps
      in case checked_Model tsort M0 of
           Inl e \<Rightarrow> Inl e
         | Inr M \<Rightarrow>
             (let control_EM = \<lparr>max_iter = max_iter', update_step_size = update_step_size',
                                tol = tol', max_lambda = max_lambda'\<rparr>;
                  (ll, M', ctx) = MCEM_hcbn ops uninit M obs times_v weights L sampling version
                                    control_EM avail thrds (seed_rng ops seed)
              in Inr (lambda M', epsilon M', ll)))"

definition export_importance_weight_genotype ::
  "'g rng_ops \<Rightarrow> (Poset \<Rightarrow> nat \<Rightarrow> nat list) \<Rightarrow> DataImportanceSampling \<Rightarrow> dbl \<Rightarrow>
   bool list \<Rightarrow> nat \<Rightarrow> int list list \<Rightarrow> dbl list \<Rightarrow> dbl \<Rightarrow> dbl \<Rightarrow> string \<Rightarrow> nat \<Rightarrow> dbl \<Rightarrow>
   bool \<Rightarrow> nat \<Rightarrow> error + DataImportanceSampling" where
  "export_importance_weight_genotype ops tsort uninit junk genotype L poset_mat lam eps time
     sampling version lam_s avail seed =
     (let p = length poset_mat;
          M0 = set_epsilon (set_lambda (new_Model (adjacency_mat2list poset_mat) p lam_s junk)
                 lam) eps
      in case checked_Model tsort M0 of
           Inl e \<Rightarrow> Inl e
         | Inr M \<Rightarrow>
             Inr (fst (importance_weight ops uninit genotype L M time sampling version
                         (seed_rng ops seed) avail)))"

definition export_sample_genotypes ::
  "'g rng_ops \<Rightarrow> (Poset \<Rightarrow> nat \<Rightarrow> nat list) \<Rightarrow> dbl \<Rightarrow> nat \<Rightarrow> int list list \<Rightarrow> dbl list \<Rightarrow>
   dbl list \<Rightarrow> dbl \<Rightarrow> bool \<Rightarrow> nat \<Rightarrow> error + bool list list \<times> dbl list list \<times> dbl list" where
  "export_sample_genotypes ops tsort junk N poset_mat lam T_sampling lam_s avail seed =
     (let p = length poset_mat;
          M0 = set_lambda (new_Model (adjacency_mat2list poset_mat) p lam_s junk) lam
      in case checked_Model tsort M0 of
           Inl e \<Rightarrow> Inl e
         | Inr M \<Rightarrow>
             (let sim = sample_genotypes ops N M T_sampling (seed_rng ops seed) avail
              in Inr (sim_obs sim, sim_T_events sim, sim_T_sampling sim)))"


section \<open>Notions of the specification\<close>

text \<open>
  The parents of a vertex, and the order in which the simulator needs the vertices: it
  reads \<open>topo_path\<close> backwards, so every vertex has to stand in \<open>topo_path\<close> once, before
  all its parents. \<open>visit_row\<close> is the body of the simulator's loops on one row of its
  matrices, and \<open>fin_val\<close> reads a finite double.
\<close>

definition parents :: "Poset \<Rightarrow> nat \<Rightarrow> nat list" where
  "parents es v = map fst (in_edges v es)"

fun rev_topological :: "Poset \<Rightarrow> nat list \<Rightarrow> bool" where
  "rev_topological es [] = True"
| "rev_topological es (v # rest) =
     (v \<notin> set rest \<and> set (parents es v) \<subseteq> set rest \<and> rev_topological es rest)"

definition visit_row ::
  "Poset \<Rightarrow> dbl list \<Rightarrow> dbl \<Rightarrow> nat \<Rightarrow> dbl list \<times> bool list \<Rightarrow> dbl list \<times> bool list" where
  "visit_row es t ts v st =
     (let (s, ob) = st; x = dadd (t ! v) (parent_max es v s)
      in (s[v := x], if dle x ts then ob[v := True] else ob))"

fun fin_val :: "dbl \<Rightarrow> real" where
  "fin_val (Fin x) = x"
| "fin_val PInf = 0"
| "fin_val NInf = 0"
| "fin_val NaN = 0"




text \<open>
  The value of the local \<open>update_step_size\<close> on entry to iteration \<open>k\<close>, before it is cut
  to 32 bits: the first multiple of the step size that is not below \<open>k\<close> (the step size
  itself for \<open>k = 0\<close>).
\<close>

definition next_boundary :: "nat \<Rightarrow> nat \<Rightarrow> nat" where
  "next_boundary step k = step * (if k = 0 then 1 else (k - 1) div step + 1)"


section \<open>Concrete inputs\<close>

text \<open>
  A deterministic platform for running the definitions: the stream is a counter, the
  \<open>n\<close>-th exponential draw is \<open>n\<close>, a discrete draw is the counter modulo the number of
  weights, all iterations run on thread 0. \<open>descending\<close> stores the vertices in
  descending order, as a topological sort may for a poset whose edges go upwards.
  \<open>chain2\<close> is a chain of two events, \<open>three\<close> has three events without an edge.
\<close>

definition counter_ops :: "nat rng_ops" where
  "counter_ops = \<lparr>exp_draw = (\<lambda>lam g. (Fin (real g), Suc g)),
     disc_draw = (\<lambda>ws g. (if ws = [] then 0 else g mod length ws, Suc g)),
     raw_draw = (\<lambda>g. (g, Suc g)), seed_rng = (\<lambda>s. s), thread_num = (\<lambda>thrds N i. 0)\<rparr>"

definition descending :: "Poset \<Rightarrow> nat \<Rightarrow> nat list" where
  "descending es p = rev [0..<p]"

definition blank :: DataImportanceSampling where
  "blank = \<lparr>is_w = [NaN], is_dist = [7], is_Tdiff = [[NaN]]\<rparr>"

definition chain2 :: Model where
  "chain2 = \<lparr>poset = [(0, 1)], topo_path = [1, 0], cycle = False, reduction_flag = False,
      lambda = [Fin 1, Fin 2], lambda_s = Fin 1, epsilon = Fin (1 / 10), llhood = Fin 0,
      msize = 2\<rparr>"

definition three :: Model where
  "three = \<lparr>poset = [], topo_path = [2, 1, 0], cycle = False, reduction_flag = False,
      lambda = [Fin 1, Fin 1, Fin 1], lambda_s = Fin 1, epsilon = Fin (7 / 100),
      llhood = Fin 0, msize = 3\<rparr>"

definition control0 :: ControlEM where
  "control0 = \<lparr>max_iter = 0, update_step_size = 20, tol = Fin (1 / 1000),
     max_lambda = Fin 1000000\<rparr>"


text \<open>
  One event without parents, observed once, with a step size of one iteration: \<open>run0\<close>
  to \<open>run3\<close> are the states of the driver on it, at the start, after iteration 0, after
  the boundary block of iteration 1 and after the window sums of iteration 1.
\<close>

definition single :: Model where
  "single = \<lparr>poset = [], topo_path = [0], cycle = False, reduction_flag = False,
      lambda = [Fin 1], lambda_s = Fin 1, epsilon = Fin 0, llhood = NaN, msize = 1\<rparr>"

definition control1 :: ControlEM where
  "control1 = \<lparr>max_iter = 1, update_step_size = 20, tol = Fin (1 / 1000),
     max_lambda = Fin 1000000\<rparr>"

definition control2 :: ControlEM where
  "control2 = \<lparr>max_iter = 2, update_step_size = 1, tol = Fin (1 / 1000),
     max_lambda = Fin 1000000\<rparr>"

definition run0 :: "nat em_state" where
  "run0 = em_init single control2 0"

definition run1 :: "nat em_state" where
  "run1 = run0\<lparr>em_model := single\<lparr>epsilon := Fin 0, lambda := [Fin 1000000]\<rparr>, em_ctx := 1,
     em_llhood := Fin (ln 1000000), em_avg_lambda_current := [Fin 1000000],
     em_avg_eps_current := Fin 0, em_avg_llhood := Fin (ln 1000000)\<rparr>"

definition run2 :: "nat em_state" where
  "run2 = run1\<lparr>em_avg_lambda := [Fin 1000000], em_avg_eps := Fin 0, em_update_step_size := 2,
     em_avg_lambda_current := [Fin 0], em_avg_eps_current := Fin 0, em_avg_llhood := Fin 0\<rparr>"

definition run3 :: "nat em_state" where
  "run3 = run2\<lparr>em_model := single\<lparr>epsilon := Fin 0, lambda := [Fin 1]\<rparr>, em_ctx := 2,
     em_llhood := Fin (- 1), em_avg_lambda_current := [Fin 1],
     em_avg_eps_current := Fin 0, em_avg_llhood := Fin (- 1)\<rparr>"


section \<open>Sums of finite doubles\<close>

lemma dsum_Nil [simp]: "dsum [] = Fin 0"
  by (simp add: dsum_def)

lemma dsum_Cons [simp]: "dsum (x # xs) = dadd x (dsum xs)"
  by (simp add: dsum_def)

lemma dsum_map_Fin: "dsum (map (\<lambda>x. Fin (f x)) xs) = Fin (\<Sum>x\<leftarrow>xs. f x)"
  by (induction xs) simp_all

lemma dsum_Fin: "dsum (map Fin xs) = Fin (sum_list xs)"
  by (induction xs) simp_all

lemma ddot_Fin: "ddot (map Fin xs) (map Fin ys) = Fin (\<Sum>(x, y)\<leftarrow>zip xs ys. x * y)"
  by (induction xs arbitrary: ys) (auto simp: ddot_def split: list.splits, case_tac ys, auto)

lemma deq_Fin: "deq (Fin x) (Fin y) = (x = y)"
  by (simp add: deq_def)

lemma fold_skip: "\<forall>d \<in> set ds. \<not> P d \<Longrightarrow> fold (\<lambda>d ll. if P d then f ll d else ll) ds a = a"
  by (induction ds arbitrary: a) simp_all

lemma sum_list_zip_nth:
  assumes "length xs = length ys"
  shows "(\<Sum>(x, y)\<leftarrow>zip xs ys. f x y) = (\<Sum>j<length ys. f (xs ! j) (ys ! j))"
proof -
  have "(\<Sum>(x, y)\<leftarrow>zip xs ys. f x y)
        = (\<Sum>j = 0..<length (zip xs ys). (case zip xs ys ! j of (x, y) \<Rightarrow> f x y))"
    by (simp add: sum_list_sum_nth)
  also have "\<dots> = (\<Sum>j<length ys. f (xs ! j) (ys ! j))"
    using assms by (simp add: atLeast0LessThan)
  finally show ?thesis .
qed


section \<open>Acyclicity check of the entry points\<close>

lemma checked_Model_eq:
  "checked_Model tsort M0 =
     (if directed_cycle (poset M0) then Inl NotAcyclic
      else Inr (M0\<lparr>cycle := False, topo_path := tsort (poset M0) (msize M0)\<rparr>))"
  by (simp add: checked_Model_def has_cycles_def Let_def)


lemma set_adjacency_mat2list:
  "set (adjacency_mat2list mat)
     = {(u, w). u < length mat \<and> w < length (mat ! u) \<and> mat ! u ! w = 1}"
  by (auto simp: adjacency_mat2list_def)

lemma directed_cycle_iff: "directed_cycle es = (\<exists>v. (v, v) \<in> (set es)\<^sup>+)"
proof
  assume "directed_cycle es"
  then show "\<exists>v. (v, v) \<in> (set es)\<^sup>+"
    by (auto simp: directed_cycle_def)
next
  assume "\<exists>v. (v, v) \<in> (set es)\<^sup>+"
  then obtain v where v: "(v, v) \<in> (set es)\<^sup>+" ..
  then obtain w where "(v, w) \<in> set es"
    by (auto dest: tranclD)
  then have "v \<in> set (map fst es)"
    by force
  with v show "directed_cycle es"
    unfolding directed_cycle_def by blast
qed

text \<open>
  C2. For every adjacency matrix whose edges (the entries equal to 1) contain a directed
  cycle, each entry point fails with \<open>NotAcyclic\<close>: the exported \<open>MCEM_hcbn\<close>,
  \<open>obs_log_likelihood\<close> (the C++ function and its export), the export of
  \<open>importance_weight\<close> for one genotype and the export of \<open>sample_genotypes\<close>. The
  result holds for every platform and every seed: no stream is read and no iteration is
  run before the failure, and nothing but the error is returned.
\<close>

theorem cyclic_poset_rejected:
  assumes "\<exists>v. (v, v) \<in>
     {(u, w). u < length poset_mat \<and> w < length (poset_mat ! u) \<and> poset_mat ! u ! w = 1}\<^sup>+"
  shows "export_MCEM_hcbn ops tsort uninit junk ilambda poset_mat obs times_v lam_s eps weights
           L sampling version max_it step tol_v mx avail thrds verbose seed = Inl NotAcyclic \<and>
         obs_log_likelihood ops tsort uninit junk obs poset_mat lam eps times_v L sampling
           version ctx lam_s avail thrds = Inl NotAcyclic \<and>
         export_obs_log_likelihood ops tsort uninit junk obs poset_mat lam eps times_v L sampling
           version lam_s avail thrds seed = Inl NotAcyclic \<and>
         export_importance_weight_genotype ops tsort uninit junk genotype L poset_mat lam eps
           time sampling version lam_s avail seed = Inl NotAcyclic \<and>
         export_sample_genotypes ops tsort junk N poset_mat lam T_sampling lam_s avail seed
           = Inl NotAcyclic"
proof -
  have c: "directed_cycle (adjacency_mat2list poset_mat)"
    using assms by (simp only: directed_cycle_iff set_adjacency_mat2list)
  have chk: "checked_Model tsort M0 = Inl NotAcyclic"
    if "poset M0 = adjacency_mat2list poset_mat" for M0
    using c that by (simp add: checked_Model_eq)
  have 1: "export_MCEM_hcbn ops tsort uninit junk ilambda poset_mat obs times_v lam_s eps weights
           L sampling version max_it step tol_v mx avail thrds verbose seed = Inl NotAcyclic"
    by (simp add: export_MCEM_hcbn_def Let_def chk new_Model_def set_lambda_def set_epsilon_def)
  have 2: "obs_log_likelihood ops tsort uninit junk obs poset_mat lam eps times_v L sampling
           version ctx lam_s avail thrds = Inl NotAcyclic"
    by (simp add: obs_log_likelihood_def Let_def chk new_Model_def set_lambda_def set_epsilon_def)
  have 3: "export_obs_log_likelihood ops tsort uninit junk obs poset_mat lam eps times_v L sampling
           version lam_s avail thrds seed = Inl NotAcyclic"
    by (simp add: export_obs_log_likelihood_def obs_log_likelihood_def Let_def chk new_Model_def
        set_lambda_def set_epsilon_def)
  have 4: "export_importance_weight_genotype ops tsort uninit junk genotype L poset_mat lam eps
           time sampling version lam_s avail seed = Inl NotAcyclic"
    by (simp add: export_importance_weight_genotype_def Let_def chk new_Model_def set_lambda_def
        set_epsilon_def)
  have 5: "export_sample_genotypes ops tsort junk N poset_mat lam T_sampling lam_s avail seed
           = Inl NotAcyclic"
    by (simp add: export_sample_genotypes_def Let_def chk new_Model_def set_lambda_def)
  from 1 2 3 4 5 show ?thesis by simp
qed

theorem cyclic_poset_rejected_witness:
  "export_MCEM_hcbn counter_ops descending blank NaN [Fin 1, Fin 1] [[0, 1], [1, 0]]
     [[True, False]] [Fin 1] (Fin 1) (Fin 0) [Fin 1] 10 ''forward'' 0 100 20 (Fin (1 / 1000))
     (Fin 1000000) False 1 False 0 = Inl NotAcyclic \<and>
   export_sample_genotypes counter_ops descending NaN 5 [[0, 1], [1, 0]] [Fin 1, Fin 1] []
     (Fin 1) False 0 = Inl NotAcyclic"
proof -
  let ?E = "{(u, w). u < length [[0, 1], [1, 0 :: int]] \<and> w < length ([[0, 1], [1, 0 :: int]] ! u)
             \<and> [[0, 1], [1, 0 :: int]] ! u ! w = 1}"
  have "(0, 1) \<in> ?E" and "(1, 0) \<in> ?E"
    by simp_all
  then have "(0, 0) \<in> ?E\<^sup>+"
    by (meson r_into_trancl' trancl_trans)
  then have h: "\<exists>v. (v, v) \<in> ?E\<^sup>+" ..
  note t = cyclic_poset_rejected [OF h]
  show ?thesis
    by (rule conjI [OF t [THEN conjunct1]
        t [THEN conjunct2, THEN conjunct2, THEN conjunct2, THEN conjunct2]])
qed


section \<open>The unimplemented proposal\<close>

text \<open>
  C1 (amended). For every call with the proposal name "add-remove", \<open>importance_weight\<close>
  draws nothing and returns the importance record as it was allocated, with the stream
  unchanged, and raises no error; the entry point for a single genotype returns that
  record when the poset is acyclic, and fails with \<open>NotAcyclic\<close> otherwise.
\<close>

theorem importance_weight_add_remove:
  "importance_weight ops uninit genotype L model time ''add-remove'' version rng avail
     = (uninit, rng) \<and>
   export_importance_weight_genotype ops tsort uninit junk genotype L poset_mat lam eps time
     ''add-remove'' version lam_s avail seed
     = (if directed_cycle (adjacency_mat2list poset_mat) then Inl NotAcyclic else Inr uninit)"
  by (simp add: importance_weight_def export_importance_weight_genotype_def checked_Model_eq
      Let_def new_Model_def set_lambda_def set_epsilon_def)

theorem importance_weight_add_remove_witness:
  "export_importance_weight_genotype counter_ops descending blank NaN [True] 1 [[0, 1], [1, 0]]
     [Fin 1] (Fin 0) (Fin 1) ''add-remove'' 0 (Fin 1) False 0 = Inl NotAcyclic"
proof -
  have "directed_cycle (adjacency_mat2list [[0, 1], [1, 0]])"
    by code_simp
  then show ?thesis
    using importance_weight_add_remove [of counter_ops blank "[True]" 1 _ "Fin 1" 0 0 False
      descending NaN "[[0, 1], [1, 0]]" "[Fin 1]" "Fin 0" "Fin 1" 0]
    by simp
qed

text \<open>
  The claim as stated, that the call is rejected with \<open>NotImplemented\<close>, fails: on the
  one-event poset without edges the entry point returns the record.
\<close>

theorem add_remove_not_rejected:
  "export_importance_weight_genotype counter_ops descending blank NaN [True] 1 [[0]] [Fin 1]
     (Fin 0) (Fin 1) ''add-remove'' 0 (Fin 1) False 0 = Inr blank \<and>
   export_importance_weight_genotype counter_ops descending blank NaN [True] 1 [[0]] [Fin 1]
     (Fin 0) (Fin 1) ''add-remove'' 0 (Fin 1) False 0 \<noteq> Inl NotImplemented"
proof -
  have "\<not> directed_cycle (adjacency_mat2list [[0]])"
    by (simp add: adjacency_mat2list_def directed_cycle_def)
  then show ?thesis
    by (simp add: importance_weight_def export_importance_weight_genotype_def checked_Model_eq
      Let_def new_Model_def set_lambda_def set_epsilon_def)
qed

section \<open>The genotype simulator respects the poset\<close>

lemma rexp_std_length: "length (fst (rexp_std ops n lam g)) = n"
  by (induction n arbitrary: g) (simp_all add: split_beta Let_def)

lemma rexp_std_nonneg:
  assumes "\<forall>lam g. \<exists>x\<ge>0. fst (exp_draw ops lam g) = Fin x"
  shows "\<forall>d \<in> set (fst (rexp_std ops n lam g)). \<exists>x\<ge>0. d = Fin x"
  using assms by (induction n arbitrary: g) (simp_all add: split_beta Let_def)

lemma draw_columns_length: "length (fst (draw_columns ops N lams g)) = length lams"
  by (induction lams arbitrary: g) (simp_all add: split_beta Let_def)

lemma draw_columns_col:
  "c \<in> set (fst (draw_columns ops N lams g)) \<Longrightarrow> length c = N"
  by (induction lams arbitrary: g) (auto simp: split_beta Let_def rexp_std_length)

lemma draw_columns_nonneg:
  assumes "\<forall>lam g. \<exists>x\<ge>0. fst (exp_draw ops lam g) = Fin x"
  shows "c \<in> set (fst (draw_columns ops N lams g)) \<Longrightarrow> \<forall>d \<in> set c. \<exists>x\<ge>0. d = Fin x"
  using rexp_std_nonneg [OF assms]
  by (induction lams arbitrary: g) (auto simp: split_beta Let_def)

lemma rows_of_columns_nth:
  "i < N \<Longrightarrow> j < length cols \<Longrightarrow> rows_of_columns N cols ! i ! j = cols ! j ! i"
  by (simp add: rows_of_columns_def)

lemma rows_of_columns_length: "length (rows_of_columns N cols) = N"
  by (simp add: rows_of_columns_def)

lemma rows_of_columns_row: "i < N \<Longrightarrow> length (rows_of_columns N cols ! i) = length cols"
  by (simp add: rows_of_columns_def)

text \<open>
  The rows of the simulator's matrices are independent: the two nested loops do on row
  \<open>i\<close> what \<open>visit_row\<close> does along the path.
\<close>

lemma visit_as_row:
  "visit es T Ts v i (S, Ob) =
     (S[i := fst (visit_row es (T ! i) (Ts ! i) v (S ! i, Ob ! i))],
      Ob[i := snd (visit_row es (T ! i) (Ts ! i) v (S ! i, Ob ! i))])"
  by (simp add: visit_def visit_row_def Let_def)

lemma inner_fold:
  "n \<le> length S \<Longrightarrow> n \<le> length Ob \<Longrightarrow>
   fold (visit es T Ts v) [0..<n] (S, Ob) =
     (map (\<lambda>i. if i < n then fst (visit_row es (T ! i) (Ts ! i) v (S ! i, Ob ! i)) else S ! i)
        [0..<length S],
      map (\<lambda>i. if i < n then snd (visit_row es (T ! i) (Ts ! i) v (S ! i, Ob ! i)) else Ob ! i)
        [0..<length Ob])"
proof (induction n)
  case 0
  show ?case by (simp add: map_nth)
next
  case (Suc n)
  then have IH: "fold (visit es T Ts v) [0..<n] (S, Ob) =
     (map (\<lambda>i. if i < n then fst (visit_row es (T ! i) (Ts ! i) v (S ! i, Ob ! i)) else S ! i)
        [0..<length S],
      map (\<lambda>i. if i < n then snd (visit_row es (T ! i) (Ts ! i) v (S ! i, Ob ! i)) else Ob ! i)
        [0..<length Ob])"
    by simp
  from Suc.prems have n: "n < length S" "n < length Ob" by simp_all
  show ?case
    using n
    by (simp add: IH visit_as_row)
       (auto intro!: nth_equalityI simp: nth_list_update less_Suc_eq)
qed

lemma inner_fold_full:
  "length S = N \<Longrightarrow> length Ob = N \<Longrightarrow>
   fold (visit es T Ts v) [0..<N] (S, Ob) =
     (map (\<lambda>i. fst (visit_row es (T ! i) (Ts ! i) v (S ! i, Ob ! i))) [0..<N],
      map (\<lambda>i. snd (visit_row es (T ! i) (Ts ! i) v (S ! i, Ob ! i))) [0..<N])"
  by (simp add: inner_fold cong: map_cong)

lemma outer_fold:
  "length S = N \<Longrightarrow> length Ob = N \<Longrightarrow>
   fold (\<lambda>v st. fold (visit es T Ts v) [0..<N] st) vs (S, Ob) =
     (map (\<lambda>i. fst (fold (visit_row es (T ! i) (Ts ! i)) vs (S ! i, Ob ! i))) [0..<N],
      map (\<lambda>i. snd (fold (visit_row es (T ! i) (Ts ! i)) vs (S ! i, Ob ! i))) [0..<N])"
proof (induction vs arbitrary: S Ob)
  case Nil
  then show ?case by (auto intro!: nth_equalityI)
next
  case (Cons v vs)
  show ?case
    using Cons.prems
    by (simp add: inner_fold_full Cons.IH)
qed


text \<open>One row: the running maximum over the in-edges, and the invariant of the path.\<close>

lemma parent_max_cong:
  "\<forall>u \<in> set (parents es v). s ! u = s' ! u \<Longrightarrow> parent_max es v s = parent_max es v s'"
proof -
  have "\<And>a. \<forall>e \<in> set xs. s ! fst e = s' ! fst e \<Longrightarrow>
    fold (\<lambda>e T_max. if dlt T_max (s ! fst e) then s ! fst e else T_max) xs a
    = fold (\<lambda>e T_max. if dlt T_max (s' ! fst e) then s' ! fst e else T_max) xs a" for xs :: "(nat \<times> nat) list"
    by (induction xs) simp_all
  then show "\<forall>u \<in> set (parents es v). s ! u = s' ! u \<Longrightarrow> parent_max es v s = parent_max es v s'"
    by (simp add: parent_max_def parents_def)
qed

lemma Max_insert_max:
  fixes A :: "real set"
  assumes "finite A"
  shows "Max (insert (max a x) A) = Max (insert a (insert x A))"
proof (cases "A = {}")
  case True
  then show ?thesis by (simp add: max.commute)
next
  case False
  then show ?thesis
    using assms by (simp add: max.assoc)
qed

lemma fold_max_Fin:
  assumes "\<forall>e \<in> set xs. \<exists>x. s ! fst e = Fin x"
  shows "fold (\<lambda>e T_max. if dlt T_max (s ! fst e) then s ! fst e else T_max) xs (Fin a)
         = Fin (Max (insert a ((\<lambda>e. fin_val (s ! fst e)) ` set xs)))"
  using assms
proof (induction xs arbitrary: a)
  case Nil
  show ?case by simp
next
  case (Cons e xs)
  let ?f = "\<lambda>e T_max. if dlt T_max (s ! fst e) then s ! fst e else T_max"
  let ?A = "(\<lambda>e. fin_val (s ! fst e)) ` set xs"
  from Cons.prems obtain x where x: "s ! fst e = Fin x" by auto
  have step: "?f e (Fin a) = Fin (max a x)"
    using x by (simp add: max_def)
  have "fold ?f (e # xs) (Fin a) = fold ?f xs (Fin (max a x))"
    using step by simp
  also have "\<dots> = Fin (Max (insert (max a x) ?A))"
    using Cons.IH Cons.prems by simp
  also have "Max (insert (max a x) ?A) = Max (insert a (insert x ?A))"
    by (rule Max_insert_max) simp
  finally show ?case
    using x by simp
qed

lemma parent_max_Fin:
  assumes "\<forall>u \<in> set (parents es v). \<exists>x\<ge>0. s ! u = Fin x"
  shows "parent_max es v s
         = Fin (if parents es v = [] then 0 else Max ((\<lambda>u. fin_val (s ! u)) ` set (parents es v)))"
proof -
  have 1: "\<forall>e \<in> set (in_edges v es). \<exists>x. s ! fst e = Fin x"
    using assms by (force simp: parents_def)
  have img: "(\<lambda>e. fin_val (s ! fst e)) ` set (in_edges v es) = (\<lambda>u. fin_val (s ! u)) ` set (parents es v)"
    by (auto simp: parents_def)
  show ?thesis
  proof (cases "parents es v = []")
    case True
    then show ?thesis by (simp add: parent_max_def parents_def)
  next
    case False
    have nonneg: "\<forall>y \<in> (\<lambda>u. fin_val (s ! u)) ` set (parents es v). 0 \<le> y"
      using assms by force
    have ne: "(\<lambda>u. fin_val (s ! u)) ` set (parents es v) \<noteq> {}"
      using False by simp
    have "Max (insert 0 ((\<lambda>u. fin_val (s ! u)) ` set (parents es v)))
          = Max ((\<lambda>u. fin_val (s ! u)) ` set (parents es v))"
    proof -
      have "0 \<le> Max ((\<lambda>u. fin_val (s ! u)) ` set (parents es v))"
        using ne nonneg False by (subst Max_ge_iff) (auto simp: neq_Nil_conv)
      then show ?thesis
        using ne by (simp add: max_def)
    qed
    then show ?thesis
      using False by (simp add: parent_max_def fold_max_Fin [OF 1] img)
  qed
qed

lemma parent_max_nonneg:
  assumes "\<forall>u \<in> set (parents es v). \<exists>x\<ge>0. s ! u = Fin x"
  shows "\<exists>m\<ge>0. parent_max es v s = Fin m"
proof (cases "parents es v = []")
  case True
  then show ?thesis by (simp add: parent_max_Fin [OF assms])
next
  case False
  have "0 \<le> Max ((\<lambda>u. fin_val (s ! u)) ` set (parents es v))"
    using assms False by (subst Max_ge_iff) (auto simp: neq_Nil_conv)
  then show ?thesis
    using False by (simp add: parent_max_Fin [OF assms])
qed

lemma rev_topological_parents:
  "rev_topological es path \<Longrightarrow> u \<in> set path \<Longrightarrow> set (parents es u) \<subseteq> set path"
  by (induction path) auto

lemma row_invariant:
  assumes "\<forall>v<p. \<exists>x\<ge>0. t ! v = Fin x"
    and "rev_topological es path" and "set path \<subseteq> {..<p}"
    and "fold (visit_row es t ts) (rev path) (replicate p (Fin 0), replicate p False) = (s, ob)"
  shows "length s = p \<and> length ob = p \<and> (\<forall>v<p. \<exists>x\<ge>0. s ! v = Fin x) \<and>
         (\<forall>v \<in> set path. s ! v = dadd (t ! v) (parent_max es v s) \<and> ob ! v = dle (s ! v) ts) \<and>
         (\<forall>v<p. v \<notin> set path \<longrightarrow> s ! v = Fin 0 \<and> \<not> ob ! v)"
  using assms(2-)
proof (induction path arbitrary: s ob)
  case Nil
  then show ?case by auto
next
  case (Cons v rest)
  obtain s1 o1 where st1:
    "fold (visit_row es t ts) (rev rest) (replicate p (Fin 0), replicate p False) = (s1, o1)"
    by (cases "fold (visit_row es t ts) (rev rest) (replicate p (Fin 0), replicate p False)")
  from Cons.prems have topo: "rev_topological es rest" and vrest: "v \<notin> set rest"
    and par: "set (parents es v) \<subseteq> set rest" and sub: "set rest \<subseteq> {..<p}" and vp: "v < p"
    by auto
  note IH = Cons.IH [OF topo sub st1]
  from IH have len: "length s1 = p" "length o1 = p" by simp_all
  from IH have fin1: "\<forall>u<p. \<exists>x\<ge>0. s1 ! u = Fin x" by simp
  have parfin: "\<forall>u \<in> set (parents es v). \<exists>x\<ge>0. s1 ! u = Fin x"
    using fin1 par sub by auto
  obtain m where m: "0 \<le> m" "parent_max es v s1 = Fin m"
    using parent_max_nonneg [OF parfin] by auto
  obtain tv where tv: "0 \<le> tv" "t ! v = Fin tv"
    using assms(1) vp by auto
  define x where "x = dadd (t ! v) (parent_max es v s1)"
  have x: "x = Fin (tv + m)"
    by (simp add: x_def m tv)
  from Cons.prems(3) have "visit_row es t ts v (s1, o1) = (s, ob)"
    by (simp add: st1)
  then have s: "s = s1[v := x]"
    and ob: "ob = (if dle x ts then o1[v := True] else o1)"
    by (auto simp: visit_row_def x_def Let_def)
  have same: "parent_max es u s = parent_max es u s1" if "set (parents es u) \<subseteq> set rest" for u
  proof (rule parent_max_cong)
    show "\<forall>w \<in> set (parents es u). s ! w = s1 ! w"
    proof
      fix w assume "w \<in> set (parents es u)"
      with that vrest have "v \<noteq> w" by auto
      then show "s ! w = s1 ! w" by (simp add: s)
    qed
  qed
  have o1v: "\<not> o1 ! v"
    using IH vrest vp by simp
  have "s ! v = dadd (t ! v) (parent_max es v s)"
    using same [OF par] vp len by (simp add: s x_def)
  moreover have "ob ! v = dle (s ! v) ts"
    using vp len o1v by (simp add: s ob)
  moreover have "s ! u = dadd (t ! u) (parent_max es u s) \<and> ob ! u = dle (s ! u) ts"
    if u: "u \<in> set rest" for u
  proof -
    have uv: "u \<noteq> v" using u vrest by auto
    have "set (parents es u) \<subseteq> set rest"
      using rev_topological_parents [OF topo u] .
    then show ?thesis
      using IH u uv same [of u] by (simp add: s ob)
  qed
  moreover have "\<forall>u<p. \<exists>y\<ge>0. s ! u = Fin y"
  proof (intro allI impI)
    fix u assume u: "u < p"
    show "\<exists>y\<ge>0. s ! u = Fin y"
    proof (cases "u = v")
      case True
      then show ?thesis using len u x tv m by (simp add: s)
    next
      case False
      then show ?thesis using fin1 u by (simp add: s)
    qed
  qed
  moreover have "\<forall>u<p. u \<notin> set (v # rest) \<longrightarrow> s ! u = Fin 0 \<and> \<not> ob ! u"
    using IH by (auto simp: s ob)
  ultimately show ?case
    using len by (auto simp: s ob)
qed

lemma set_parents: "set (parents es v) = {u. (u, v) \<in> set es}"
  by (force simp: parents_def in_edges_def)

lemma sample_genotypes_row:
  assumes "sim = sample_genotypes ops N model T_sampling0 rng avail" and "i < N"
  shows "fold (visit_row (poset model) (sim_T_events sim ! i) (sim_T_sampling sim ! i))
           (rev (topo_path model))
           (replicate (msize model) (Fin 0), replicate (msize model) False)
         = (sim_T_events_sum sim ! i, sim_obs sim ! i)"
  using assms(2) unfolding assms(1)
  by (simp add: sample_genotypes_def Let_def split_beta outer_fold)

lemma sample_genotypes_T_events:
  assumes "\<forall>lam g. \<exists>x\<ge>0. fst (exp_draw ops lam g) = Fin x"
    and "i < N" and "v < msize model"
  shows "\<exists>x\<ge>0. sim_T_events (sample_genotypes ops N model T_sampling0 rng avail) ! i ! v = Fin x"
proof -
  let ?cols = "fst (draw_columns ops N (map (\<lambda>j. lambda model ! j) [0..<msize model]) rng)"
  have len: "length ?cols = msize model"
    by (simp add: draw_columns_length)
  then have c: "?cols ! v \<in> set ?cols"
    using assms(3) by simp
  have "length (?cols ! v) = N"
    using draw_columns_col [OF c] .
  then have "?cols ! v ! i \<in> set (?cols ! v)"
    using assms(2) by simp
  then have "\<exists>x\<ge>0. ?cols ! v ! i = Fin x"
    using draw_columns_nonneg [OF assms(1) c] by blast
  then show ?thesis
    using assms(2,3) len
    by (simp add: sample_genotypes_def Let_def split_beta rows_of_columns_nth)
qed

lemma sample_genotypes_T_events_shape:
  "length (sim_T_events (sample_genotypes ops N model T_sampling0 rng avail)) = N"
  by (simp add: sample_genotypes_def Let_def split_beta rows_of_columns_length)

text \<open>
  C7. Let the draws of the exponential distribution be finite and non-negative, and let
  \<open>topo_path\<close> hold every vertex \<open>0..<p\<close> once, each before all its parents (the
  simulator reads it backwards; such a path exists for acyclic posets only). Then for
  every sample \<open>i < N\<close> and every vertex \<open>v\<close> the occurrence time \<open>S[i, v]\<close> is finite and
  non-negative, \<open>S[i, v] = T_events[i, v] + max\<close> over the parents \<open>u\<close> of \<open>S[i, u]\<close> (0 when
  there is none), \<open>S[i, u] \<le> S[i, v]\<close> for every edge \<open>u \<rightarrow> v\<close>, and the genotype bit is
  \<open>obs[i, v] = (S[i, v] \<le> T_sampling[i])\<close>.
\<close>

theorem sample_genotypes_occurrence_times:
  assumes "\<forall>lam g. \<exists>x\<ge>0. fst (exp_draw ops lam g) = Fin x"
    and "rev_topological (poset model) (topo_path model)"
    and "set (topo_path model) = {..<msize model}"
    and "i < N" and "v < msize model"
  shows "let sim = sample_genotypes ops N model T_sampling0 rng avail;
             S = (\<lambda>u. fin_val (sim_T_events_sum sim ! i ! u));
             pa = {u. (u, v) \<in> set (poset model)}
         in (\<exists>x\<ge>0. sim_T_events_sum sim ! i ! v = Fin x) \<and>
            S v = fin_val (sim_T_events sim ! i ! v) + (if pa = {} then 0 else Max (S ` pa)) \<and>
            (\<forall>u \<in> pa. S u \<le> S v) \<and>
            sim_obs sim ! i ! v = dle (sim_T_events_sum sim ! i ! v) (sim_T_sampling sim ! i)"
proof -
  define sim where "sim = sample_genotypes ops N model T_sampling0 rng avail"
  define p where "p = msize model"
  define s where "s = sim_T_events_sum sim ! i"
  define t where "t = sim_T_events sim ! i"
  let ?es = "poset model"
  have t: "\<forall>u<p. \<exists>x\<ge>0. t ! u = Fin x"
    using sample_genotypes_T_events [OF assms(1) assms(4)] by (simp add: t_def sim_def p_def)
  have fold: "fold (visit_row ?es t (sim_T_sampling sim ! i)) (rev (topo_path model))
           (replicate p (Fin 0), replicate p False) = (s, sim_obs sim ! i)"
    using sample_genotypes_row [OF sim_def assms(4)] by (simp add: s_def t_def p_def)
  have sub: "set (topo_path model) \<subseteq> {..<p}"
    using assms(3) by (simp add: p_def)
  note inv = row_invariant [OF t assms(2) sub fold]
  have vin: "v \<in> set (topo_path model)"
    using assms(3,5) by simp
  have fin: "\<forall>u<p. \<exists>x\<ge>0. s ! u = Fin x"
    using inv by simp
  have par: "set (parents ?es v) \<subseteq> {..<p}"
    using rev_topological_parents [OF assms(2) vin] sub by auto
  then have parfin: "\<forall>u \<in> set (parents ?es v). \<exists>x\<ge>0. s ! u = Fin x"
    using fin by auto
  obtain tv where tv: "t ! v = Fin tv" "0 \<le> tv"
    using t assms(5) by (auto simp: p_def)
  have sv: "s ! v = dadd (t ! v) (parent_max ?es v s)"
    and ov: "sim_obs sim ! i ! v = dle (s ! v) (sim_T_sampling sim ! i)"
    using inv vin by simp_all
  let ?m = "if parents ?es v = [] then 0 else Max ((\<lambda>u. fin_val (s ! u)) ` set (parents ?es v))"
  have sv': "s ! v = Fin (tv + ?m)"
    by (simp only: sv parent_max_Fin [OF parfin] tv dadd.simps)
  have 1: "\<exists>x\<ge>0. s ! v = Fin x"
    using fin assms(5) by (simp add: p_def)
  have empty: "(parents ?es v = []) = ({u. (u, v) \<in> set ?es} = {})"
    using set_parents [of ?es v] by (metis set_empty)
  have 2: "fin_val (s ! v) = fin_val (t ! v)
        + (if {u. (u, v) \<in> set ?es} = {} then 0
           else Max ((\<lambda>u. fin_val (s ! u)) ` {u. (u, v) \<in> set ?es}))"
    by (simp only: sv' tv fin_val.simps empty set_parents)
  have 3: "\<forall>u \<in> {u. (u, v) \<in> set ?es}. fin_val (s ! u) \<le> fin_val (s ! v)"
  proof
    fix u assume u: "u \<in> {u. (u, v) \<in> set ?es}"
    then have ne: "{u. (u, v) \<in> set ?es} \<noteq> {}" by auto
    have finite: "finite ((\<lambda>u. fin_val (s ! u)) ` {u. (u, v) \<in> set ?es})"
      using set_parents [of ?es v, symmetric] by simp
    have "fin_val (s ! u) \<le> Max ((\<lambda>u. fin_val (s ! u)) ` {u. (u, v) \<in> set ?es})"
      using u finite by (intro Max_ge) auto
    moreover have "fin_val (s ! v)
        = tv + Max ((\<lambda>u. fin_val (s ! u)) ` {u. (u, v) \<in> set ?es})"
      using 2 ne tv by (simp only: if_False fin_val.simps)
    ultimately show "fin_val (s ! u) \<le> fin_val (s ! v)"
      using tv by linarith
  qed
  show ?thesis
    using 1 2 3 ov by (simp add: Let_def sim_def [symmetric] s_def [symmetric] t_def [symmetric])
qed

theorem sample_genotypes_occurrence_times_witness:
  "fin_val (sim_T_events_sum (sample_genotypes counter_ops 2 chain2 [Fin 3, Fin 3] 0 True) ! 1 ! 0)
   \<le> fin_val (sim_T_events_sum (sample_genotypes counter_ops 2 chain2 [Fin 3, Fin 3] 0 True) ! 1 ! 1)"
proof -
  have h1: "\<forall>lam g. \<exists>x\<ge>0. fst (exp_draw counter_ops lam g) = Fin x"
    by (simp add: counter_ops_def)
  have h2: "rev_topological (poset chain2) (topo_path chain2)"
    by (simp add: chain2_def parents_def in_edges_def)
  have h3: "set (topo_path chain2) = {..<msize chain2}"
    by (auto simp: chain2_def)
  have h4: "(1::nat) < 2" and h5: "1 < msize chain2"
    by (simp_all add: chain2_def)
  have e: "(0, 1) \<in> set (poset chain2)"
    by (simp add: chain2_def)
  show ?thesis
    using sample_genotypes_occurrence_times [OF h1 h2 h3 h4 h5, of "[Fin 3, Fin 3]" 0 True] e
    unfolding Let_def by blast
qed


section \<open>The forward proposal\<close>











section \<open>The rejection proposal\<close>












section \<open>The complete-data log-likelihood without noise\<close>

text \<open>
  C8. When \<open>eps = 0\<close> and every entry of \<open>dist\<close> is 0, the Bernoulli term adds nothing:
  \<open>complete_log_likelihood\<close> is \<open>W \<cdot> \<Sum> log lambda - \<Sum> Tdiff \<cdot> lambda\<close>, for all doubles;
  and for finite \<open>W\<close> and \<open>Tdiff\<close> (with \<open>p\<close> columns) and positive finite \<open>lambda\<close> it is
  the real number \<open>W \<cdot> \<Sum>\<^sub>j ln lambda\<^sub>j - \<Sum>\<^sub>i\<^sub>j Tdiff[i, j] \<cdot> lambda\<^sub>j\<close>.
\<close>

theorem complete_log_likelihood_eps_zero:
  assumes "\<forall>d \<in> set dist_v. d = Fin 0"
  shows "complete_log_likelihood lam (Fin 0) Tdiff dist_v W
           = dsub (dmul W (dsum (map dlog lam))) (dsum (map (\<lambda>row. ddot row lam) Tdiff)) \<and>
         ((\<forall>l \<in> set ls. 0 < l) \<and> (\<forall>row \<in> set T. length row = length ls) \<longrightarrow>
          complete_log_likelihood (map Fin ls) (Fin 0) (map (map Fin) T) dist_v (Fin w)
           = Fin (w * (\<Sum>j<length ls. ln (ls ! j))
                  - (\<Sum>i<length T. \<Sum>j<length ls. T ! i ! j * ls ! j)))"
proof -
  have skip: "\<And>a p. fold (\<lambda>d ll. if \<not> deq d (Fin 0) then dadd ll (bernoulli_guarded (Fin 0) p d) else ll) dist_v a = a"
    using assms by (intro fold_skip) (auto simp: deq_def)
  have gen: "\<And>lam Tdiff W. complete_log_likelihood lam (Fin 0) Tdiff dist_v W
           = dsub (dmul W (dsum (map dlog lam))) (dsum (map (\<lambda>row. ddot row lam) Tdiff))"
    by (simp add: complete_log_likelihood_def Let_def deq_Fin skip)
  have fin: "complete_log_likelihood (map Fin ls) (Fin 0) (map (map Fin) T) dist_v (Fin w)
           = Fin (w * (\<Sum>j<length ls. ln (ls ! j))
                  - (\<Sum>i<length T. \<Sum>j<length ls. T ! i ! j * ls ! j))"
    if pos: "\<forall>l \<in> set ls. 0 < l" and len: "\<forall>row \<in> set T. length row = length ls"
  proof -
    have "map dlog (map Fin ls) = map (\<lambda>l. Fin (ln l)) ls"
      using pos by simp
    then have 1: "dsum (map dlog (map Fin ls)) = Fin (\<Sum>j<length ls. ln (ls ! j))"
      by (simp only: dsum_map_Fin) (simp add: sum_list_sum_nth atLeast0LessThan)
    have "map (\<lambda>row. ddot row (map Fin ls)) (map (map Fin) T)
            = map (\<lambda>row. Fin (\<Sum>j<length ls. row ! j * ls ! j)) T"
      using len by (simp add: ddot_Fin sum_list_zip_nth)
    then have 2: "dsum (map (\<lambda>row. ddot row (map Fin ls)) (map (map Fin) T))
            = Fin (\<Sum>i<length T. \<Sum>j<length ls. T ! i ! j * ls ! j)"
      by (simp only: dsum_map_Fin) (simp add: sum_list_sum_nth atLeast0LessThan)
    show ?thesis
      by (simp only: gen 1 2) (simp add: dsub_def)
  qed
  show ?thesis
    using gen fin by blast
qed

theorem complete_log_likelihood_eps_zero_witness:
  "complete_log_likelihood [Fin 1, Fin 2] (Fin 0) [[Fin 1, Fin 2], [Fin 3, Fin 4]]
     [Fin 0, Fin 0] (Fin 2) = Fin (2 * ln 2 - 16)"
proof -
  have h: "\<forall>d \<in> set [Fin 0, Fin 0]. d = Fin 0"
    by simp
  have "(\<forall>l \<in> set [1, 2 :: real]. 0 < l) \<and>
        (\<forall>row \<in> set [[1, 2], [3, 4 :: real]]. length row = length [1, 2 :: real])"
    by simp
  then show ?thesis
    using complete_log_likelihood_eps_zero [OF h, where ls = "[1, 2]"
        and T = "[[1, 2], [3, 4]]" and w = 2, THEN conjunct2]
    by (simp add: lessThan_Suc numeral_2_eq_2)
qed


section \<open>The M-step\<close>

lemma sum_list_zip_nonneg:
  fixes xs ys :: "real list"
  assumes "\<forall>x \<in> set xs. 0 \<le> x" and "\<forall>y \<in> set ys. 0 \<le> y"
  shows "0 \<le> (\<Sum>(x, y)\<leftarrow>zip xs ys. x * y)"
proof (rule sum_list_nonneg)
  fix z assume "z \<in> set (map (\<lambda>(x, y). x * y) (zip xs ys))"
  then obtain x y where "(x, y) \<in> set (zip xs ys)" and z: "z = x * y"
    by auto
  then have "x \<in> set xs" and "y \<in> set ys"
    by (auto dest: set_zip_leftD set_zip_rightD)
  with assms z show "0 \<le> z"
    by simp
qed

lemma sum_list_bounds:
  fixes ds :: "real list"
  assumes "\<forall>d \<in> set ds. 0 \<le> d \<and> d \<le> b"
  shows "0 \<le> sum_list ds \<and> sum_list ds \<le> real (length ds) * b"
  using assms by (induction ds) (auto simp: algebra_simps)

lemma clamp_lambda_Fin: "clamp_lambda (Fin mx) (Fin a) = Fin (min a mx)"
  by (simp add: clamp_lambda_def min_def)

lemma clamp_lambda_PInf: "clamp_lambda (Fin mx) PInf = Fin mx"
  by (simp add: clamp_lambda_def)

lemma new_rate:
  assumes "0 \<le> s" and "0 < W" and "0 < mx"
  shows "clamp_lambda (Fin mx) (ddiv (Fin 1) (ddiv (Fin s) (Fin W)))
         = Fin (if s = 0 then mx else min (W / s) mx)"
    and "0 < (if s = 0 then mx else min (W / s) mx)"
    and "(if s = 0 then mx else min (W / s) mx) \<le> mx"
  using assms by (auto simp: clamp_lambda_Fin clamp_lambda_PInf)

text \<open>
  C6 (amended). The model after an iteration of \<open>MCEM_hcbn\<close> is the M-step of the
  statistics of its E-step. Let the M-step run on \<open>N > 0\<close> observations and \<open>p > 0\<close>
  events, with finite non-negative observation weights, a positive finite \<open>W\<close> (the sum
  of the weights as the \<open>float\<close> holds it), a positive finite \<open>max_lambda\<close>, and finite
  statistics of the E-step with \<open>0 \<le> E_dist[i] \<le> p\<close> and \<open>0 \<le> E_Tdiff[i, j]\<close>; let every
  \<open>s\<^sub>j\<close> of \<open>s = weights \<cdot> E_Tdiff\<close> and every quotient \<open>s\<^sub>j / W\<close> lie below \<open>2 ^ 1023\<close>, in the
  range of \<open>double\<close>. Then after the M-step \<open>\<epsilon> = (\<Sum>\<^sub>i E_dist[i]) / (N \<cdot> p)\<close> and
  \<open>0 \<le> \<epsilon> \<le> 1\<close>, and for every event \<open>j\<close> the rate is \<open>W / s\<^sub>j\<close> clamped above by \<open>max_lambda\<close>
  (\<open>max_lambda\<close> itself when \<open>s\<^sub>j = 0\<close>, where the quotient is infinite), with
  \<open>0 < lambda[j] \<le> max_lambda\<close>.
\<close>

theorem m_step_clamp:
  fixes ws ds :: "real list" and T :: "real list list"
  assumes "0 < N" and "0 < msize model"
    and "length ws = N" and "\<forall>x \<in> set ws. 0 \<le> x" and "0 < w"
    and "length ds = N" and "\<forall>d \<in> set ds. 0 \<le> d \<and> d \<le> real (msize model)"
    and "length T = N"
    and "\<forall>row \<in> set T. length row = msize model \<and> (\<forall>x \<in> set row. 0 \<le> x)"
    and "max_lambda control_EM = Fin mx" and "0 < mx"
    and "\<forall>j<msize model. (\<Sum>(x, row)\<leftarrow>zip ws T. x * row ! j) < 2 ^ 1023 * min 1 w"
  shows "em_model (em_iteration ops uninit obs times_v weights L sampling version control_EM
                     avail thrds st)
         = (let rs = fst (importance_weight_each ops uninit obs L (em_model st) times_v sampling
                            version avail thrds [0..<length obs]
                            (fst (get_auxiliary_rngs ops thrds (em_ctx st))))
            in m_step control_EM (em_model st) weights (to_float (dsum weights)) (length obs)
                 (map (\<lambda>r. fst (expected_stats (msize (em_model st)) r)) rs)
                 (map (\<lambda>r. snd (expected_stats (msize (em_model st)) r)) rs)) \<and>
         (let p = msize model;
             m' = m_step control_EM model (map Fin ws) (Fin w) N (map Fin ds) (map (map Fin) T)
         in epsilon m' = Fin (sum_list ds / real (N * p)) \<and>
            0 \<le> sum_list ds / real (N * p) \<and> sum_list ds / real (N * p) \<le> 1 \<and>
            length (lambda m') = p \<and>
            (\<forall>j<p. lambda m' ! j
                     = Fin (if (\<Sum>(x, row)\<leftarrow>zip ws T. x * row ! j) = 0 then mx
                            else min (w / (\<Sum>(x, row)\<leftarrow>zip ws T. x * row ! j)) mx) \<and>
                   0 < (if (\<Sum>(x, row)\<leftarrow>zip ws T. x * row ! j) = 0 then mx
                        else min (w / (\<Sum>(x, row)\<leftarrow>zip ws T. x * row ! j)) mx) \<and>
                   (if (\<Sum>(x, row)\<leftarrow>zip ws T. x * row ! j) = 0 then mx
                    else min (w / (\<Sum>(x, row)\<leftarrow>zip ws T. x * row ! j)) mx) \<le> mx))"
proof -
  let ?p = "msize model"
  have iter: "em_model (em_iteration ops uninit obs times_v weights L sampling version control_EM
                     avail thrds st)
         = (let rs = fst (importance_weight_each ops uninit obs L (em_model st) times_v sampling
                            version avail thrds [0..<length obs]
                            (fst (get_auxiliary_rngs ops thrds (em_ctx st))))
            in m_step control_EM (em_model st) weights (to_float (dsum weights)) (length obs)
                 (map (\<lambda>r. fst (expected_stats (msize (em_model st)) r)) rs)
                 (map (\<lambda>r. snd (expected_stats (msize (em_model st)) r)) rs))"
    by (simp add: em_iteration_def Let_def split_beta)
  define m' where
    "m' = m_step control_EM model (map Fin ws) (Fin w) N (map Fin ds) (map (map Fin) T)"
  have Np: "0 < real (N * ?p)"
    using assms(1,2) by simp
  have eps: "epsilon m' = Fin (sum_list ds / real (N * ?p))"
    using assms(1,2)
    by (simp add: m'_def m_step_def Let_def set_epsilon_def set_lambda_max_def dsum_Fin
        of_count_def)
  have b: "0 \<le> sum_list ds" "sum_list ds \<le> real (length ds) * real ?p"
    using sum_list_bounds [OF assms(7)] by simp_all
  have e0: "0 \<le> sum_list ds / real (N * ?p)"
    using b Np by simp
  have e1: "sum_list ds / real (N * ?p) \<le> 1"
    using b Np assms(6) by (simp add: pos_divide_le_eq)
  have len: "length (lambda m') = ?p"
    by (simp add: m'_def m_step_def Let_def set_epsilon_def set_lambda_max_def)
  have rate: "lambda m' ! j = Fin (if (\<Sum>(x, row)\<leftarrow>zip ws T. x * row ! j) = 0 then mx
                                else min (w / (\<Sum>(x, row)\<leftarrow>zip ws T. x * row ! j)) mx) \<and>
            0 < (if (\<Sum>(x, row)\<leftarrow>zip ws T. x * row ! j) = 0 then mx
                 else min (w / (\<Sum>(x, row)\<leftarrow>zip ws T. x * row ! j)) mx) \<and>
            (if (\<Sum>(x, row)\<leftarrow>zip ws T. x * row ! j) = 0 then mx
             else min (w / (\<Sum>(x, row)\<leftarrow>zip ws T. x * row ! j)) mx) \<le> mx"
    if j: "j < ?p" for j
  proof -
    define col where "col = map (\<lambda>row. row ! j) T"
    define s where "s = (\<Sum>(x, row)\<leftarrow>zip ws T. x * row ! j)"
    have c: "map (\<lambda>row. row ! j) (map (map Fin) T) = map Fin col"
      using assms(9) j by (simp add: col_def)
    have cpos: "\<forall>y \<in> set col. 0 \<le> y"
      using assms(9) j by (auto simp: col_def)
    have sc: "(\<Sum>(x, y)\<leftarrow>zip ws col. x * y) = s"
      by (simp add: col_def s_def zip_map2 split_def comp_def)
    then have dd: "ddot (map Fin ws) (map (\<lambda>row. row ! j) (map (map Fin) T)) = Fin s"
      by (simp only: c ddot_Fin)
    have s0: "0 \<le> s"
      using sum_list_zip_nonneg [OF assms(4) cpos] sc by simp
    have "lambda m' ! j = clamp_lambda (Fin mx) (ddiv (Fin 1) (ddiv (Fin s) (Fin w)))"
      using j by (simp add: m'_def m_step_def Let_def set_epsilon_def set_lambda_max_def dd
          assms(10) del: ddiv.simps map_map)
    then show ?thesis
      using new_rate [OF s0 assms(5) assms(11)] unfolding s_def by simp
  qed
  from eps e0 e1 len rate
  have "epsilon m' = Fin (sum_list ds / real (N * ?p)) \<and>
        0 \<le> sum_list ds / real (N * ?p) \<and> sum_list ds / real (N * ?p) \<le> 1 \<and>
        length (lambda m') = ?p \<and>
        (\<forall>j<?p. lambda m' ! j
                 = Fin (if (\<Sum>(x, row)\<leftarrow>zip ws T. x * row ! j) = 0 then mx
                        else min (w / (\<Sum>(x, row)\<leftarrow>zip ws T. x * row ! j)) mx) \<and>
               0 < (if (\<Sum>(x, row)\<leftarrow>zip ws T. x * row ! j) = 0 then mx
                    else min (w / (\<Sum>(x, row)\<leftarrow>zip ws T. x * row ! j)) mx) \<and>
               (if (\<Sum>(x, row)\<leftarrow>zip ws T. x * row ! j) = 0 then mx
                else min (w / (\<Sum>(x, row)\<leftarrow>zip ws T. x * row ! j)) mx) \<le> mx)"
    by blast
  then have "let p = msize model;
             m' = m_step control_EM model (map Fin ws) (Fin w) N (map Fin ds) (map (map Fin) T)
         in epsilon m' = Fin (sum_list ds / real (N * p)) \<and>
            0 \<le> sum_list ds / real (N * p) \<and> sum_list ds / real (N * p) \<le> 1 \<and>
            length (lambda m') = p \<and>
            (\<forall>j<p. lambda m' ! j
                     = Fin (if (\<Sum>(x, row)\<leftarrow>zip ws T. x * row ! j) = 0 then mx
                            else min (w / (\<Sum>(x, row)\<leftarrow>zip ws T. x * row ! j)) mx) \<and>
                   0 < (if (\<Sum>(x, row)\<leftarrow>zip ws T. x * row ! j) = 0 then mx
                        else min (w / (\<Sum>(x, row)\<leftarrow>zip ws T. x * row ! j)) mx) \<and>
                   (if (\<Sum>(x, row)\<leftarrow>zip ws T. x * row ! j) = 0 then mx
                    else min (w / (\<Sum>(x, row)\<leftarrow>zip ws T. x * row ! j)) mx) \<le> mx)"
    unfolding Let_def m'_def [symmetric] .
  with iter show ?thesis
    by (rule conjI)
qed

theorem m_step_clamp_witness:
  "epsilon (m_step control2 chain2 [Fin 1] (Fin 1) 1 [Fin 1] [[Fin 1, Fin 2]]) = Fin (1 / 2) \<and>
   lambda (m_step control2 chain2 [Fin 1] (Fin 1) 1 [Fin 1] [[Fin 1, Fin 2]]) ! 0 = Fin 1 \<and>
   lambda (m_step control2 chain2 [Fin 1] (Fin 1) 1 [Fin 1] [[Fin 1, Fin 2]]) ! 1 = Fin (1 / 2)"
proof -
  have p: "msize chain2 = 2"
    by (simp add: chain2_def)
  have h1: "0 < (1::nat)" and h2: "0 < msize chain2"
    and h3: "length [1::real] = 1" and h4: "\<forall>x \<in> set [1::real]. 0 \<le> x" and h5: "(0::real) < 1"
    and h7: "\<forall>d \<in> set [1::real]. 0 \<le> d \<and> d \<le> real (msize chain2)"
    and h8: "length [[1, 2 :: real]] = 1"
    and h9: "\<forall>row \<in> set [[1, 2 :: real]]. length row = msize chain2 \<and> (\<forall>x \<in> set row. 0 \<le> x)"
    and h10: "max_lambda control2 = Fin 1000000" and h11: "(0::real) < 1000000"
    by (simp_all add: p control2_def)
  have h12: "\<forall>j<msize chain2. (\<Sum>(x, row)\<leftarrow>zip [1::real] [[1, 2]]. x * row ! j)
               < 2 ^ 1023 * min 1 1"
    unfolding p by (simp add: less_Suc_eq numeral_2_eq_2)
  note t = m_step_clamp [OF h1 h2 h3 h4 h5 h3 h7 h8 h9 h10 h11 h12, THEN conjunct2,
      unfolded Let_def p]
  from t have e: "epsilon (m_step control2 chain2 (map Fin [1]) (Fin 1) 1 (map Fin [1])
                    (map (map Fin) [[1, 2]])) = Fin (sum_list [1] / real (1 * 2))"
    by (rule conjunct1)
  from t have r: "\<forall>j<2. lambda (m_step control2 chain2 (map Fin [1]) (Fin 1) 1 (map Fin [1])
                    (map (map Fin) [[1, 2]])) ! j
                  = Fin (if (\<Sum>(x, row)\<leftarrow>zip [1::real] [[1, 2]]. x * row ! j) = 0 then 1000000
                         else min (1 / (\<Sum>(x, row)\<leftarrow>zip [1::real] [[1, 2]]. x * row ! j)) 1000000)"
    by blast
  from r have r0: "lambda (m_step control2 chain2 (map Fin [1]) (Fin 1) 1 (map Fin [1])
                    (map (map Fin) [[1, 2]])) ! 0 = Fin 1"
    by simp
  from r have r1: "lambda (m_step control2 chain2 (map Fin [1]) (Fin 1) 1 (map Fin [1])
                    (map (map Fin) [[1, 2]])) ! 1 = Fin (1 / 2)"
    by simp
  from e r0 r1 show ?thesis
    by simp
qed


section \<open>The last window of the MCEM loop\<close>

lemma next_boundary_0: "next_boundary step 0 = step"
  by (simp add: next_boundary_def)

lemma next_boundary_Suc: "next_boundary step (Suc k) = step * (k div step + 1)"
  by (simp add: next_boundary_def)

lemma next_boundary_le: "next_boundary step (Suc k) \<le> k + step"
proof -
  have "step * (k div step) \<le> k"
    by simp
  then show ?thesis
    by (simp add: next_boundary_Suc)
qed

lemma next_boundary_hit:
  assumes "k = next_boundary step k"
  shows "next_boundary step (Suc k) = next_boundary step k + step"
proof (cases k)
  case 0
  with assms have "step = 0" by (simp add: next_boundary_def)
  then show ?thesis by (simp add: next_boundary_def)
next
  case (Suc k')
  with assms have k: "Suc k' = step * (k' div step + 1)"
    by (simp add: next_boundary_Suc)
  then have pos: "0 < step"
    by (cases "step = 0") simp_all
  from k have "Suc k' div step = k' div step + 1"
    using pos by (metis nonzero_mult_div_cancel_left less_not_refl)
  then show ?thesis
    by (simp add: next_boundary_Suc Suc k [symmetric] algebra_simps)
qed

lemma next_boundary_miss:
  assumes "k \<noteq> next_boundary step k"
  shows "next_boundary step (Suc k) = next_boundary step k"
proof (cases k)
  case 0
  then show ?thesis by (simp add: next_boundary_def)
next
  case (Suc k')
  show ?thesis
  proof (cases "Suc k' mod step = 0")
    case True
    then have d: "Suc k' div step = Suc (k' div step)"
      by (simp add: div_Suc)
    from True have e: "step * (Suc k' div step) = Suc k'"
      by (metis mult_div_mod_eq add.right_neutral)
    have "next_boundary step (Suc k') = step * (Suc k' div step)"
      unfolding next_boundary_Suc d by simp
    then have "Suc k' = next_boundary step (Suc k')"
      by (simp only: e)
    with assms Suc show ?thesis by simp
  next
    case False
    then have "Suc k' div step = k' div step"
      by (simp add: div_Suc)
    then show ?thesis
      by (simp add: next_boundary_Suc Suc)
  qed
qed

lemma next_boundary_test:
  assumes "k < 2 ^ 32" and "step < 2 ^ 32"
  shows "(k = next_boundary step k mod 2 ^ 32) = (k = next_boundary step k)"
proof
  assume "k = next_boundary step k"
  with assms show "k = next_boundary step k mod 2 ^ 32" by simp
next
  assume h: "k = next_boundary step k mod 2 ^ 32"
  have "next_boundary step k < 2 ^ 32"
  proof (cases k)
    case 0
    with assms show ?thesis by (simp add: next_boundary_0)
  next
    case (Suc k')
    show ?thesis
    proof (rule ccontr)
      assume "\<not> next_boundary step k < 2 ^ 32"
      then have ge: "(2::nat) ^ 32 \<le> next_boundary step k" by simp
      have le: "next_boundary step k \<le> k' + step"
        using next_boundary_le [of step k'] Suc by simp
      with assms Suc have "next_boundary step k - 2 ^ 32 < 2 ^ 32"
        by simp
      then have "next_boundary step k mod 2 ^ 32 = next_boundary step k - 2 ^ 32"
        using ge by (simp add: mod_if le_mod_geq)
      with h le assms Suc show False
        by simp
    qed
  qed
  with h show "k = next_boundary step k" by simp
qed

lemma num_iter_count:
  assumes "mi = Suc n" and "mi < 2 ^ 32" and "step < 2 ^ 32"
    and "upd = next_boundary step (Suc n) mod 2 ^ 32"
  shows "u32_add (u32_sub mi upd) step = mi - step * (n div step)"
proof -
  define M where "M = (2::nat) ^ 32"
  define q where "q = n div step"
  define X where "X = mi - step * q"
  define V where "V = step * (q + 1)"
  have sq: "step * q \<le> n"
    by (simp add: q_def)
  then have XV: "X + V = mi + step"
    using assms(1) by (simp add: X_def V_def)
  have Xle: "X < M"
    using assms(2) by (simp add: X_def M_def)
  have u: "upd = V mod M"
    by (simp add: assms(4) next_boundary_Suc V_def q_def M_def)
  have M0: "0 < M"
    by (simp add: M_def)
  then have ulM: "upd < M"
    by (simp add: u)
  have V: "V = upd + M * (V div M)"
    by (simp add: u)
  have "mi + (M - upd) + step = X + M * (V div M + 1)"
    using XV V ulM by (simp add: algebra_simps)
  then have "(mi + (M - upd) + step) mod M = X"
    using Xle by (simp only: mod_mult_self2 mod_less)
  moreover have "u32_add (u32_sub mi upd) step = (mi + (M - upd) + step) mod M"
    using ulM by (simp add: u32_add_def u32_sub_def mod_add_left_eq M_def)
  ultimately show ?thesis
    by (simp add: X_def q_def)
qed

lemma em_loop_snoc:
  "em_loop ops uninit obs times_v weights L sampling version control_EM avail thrds (Suc k) iter st
   = (case em_loop ops uninit obs times_v weights L sampling version control_EM avail thrds k
            iter st of
        Break s \<Rightarrow> Break s
      | Continue s \<Rightarrow>
          em_body ops uninit obs times_v weights L sampling version control_EM avail thrds
            (iter + k) s)"
proof (induction k arbitrary: iter st)
  case 0
  show ?case by (simp split: flow.splits)
next
  case (Suc k)
  show ?case
  proof (cases "em_body ops uninit obs times_v weights L sampling version control_EM avail thrds
      iter st")
    case (Break s1)
    then show ?thesis by simp
  next
    case (Continue s1)
    have e: "em_loop ops uninit obs times_v weights L sampling version control_EM avail thrds
               (Suc n) iter st
             = em_loop ops uninit obs times_v weights L sampling version control_EM avail thrds
                 n (Suc iter) s1" for n
      by (simp only: em_loop.simps(2) Continue flow.case)
    show ?thesis
      unfolding e Suc.IH by (simp only: add_Suc add_Suc_right)
  qed
qed

lemma em_iteration_upd:
  "em_update_step_size (em_iteration ops uninit obs times_v weights L sampling version control_EM
     avail thrds st) = em_update_step_size st"
  by (simp add: em_iteration_def Let_def split_beta)

lemma final_average_upd: "em_update_step_size (final_average control_EM st) = em_update_step_size st"
  by (simp add: final_average_def Let_def)

lemma window_boundary_upd:
  assumes "window_boundary control_EM iter st = Continue s"
  shows "em_update_step_size s
         = (if iter = em_update_step_size st
            then u32_add (em_update_step_size st) (update_step_size control_EM)
            else em_update_step_size st)"
  using assms by (auto simp: window_boundary_def Let_def split: if_splits)

lemma em_body_upd:
  assumes "em_body ops uninit obs times_v weights L sampling version control_EM avail thrds iter st
           = Continue s"
  shows "em_update_step_size s
         = (if iter = em_update_step_size st
            then u32_add (em_update_step_size st) (update_step_size control_EM)
            else em_update_step_size st)"
proof -
  from assms obtain s2 where wb: "window_boundary control_EM iter st = Continue s2"
    and s: "em_update_step_size s = em_update_step_size s2"
    by (auto simp: em_body_def Let_def em_iteration_upd final_average_upd split: flow.splits if_splits)
  show ?thesis
    using window_boundary_upd [OF wb] s by simp
qed

lemma boundary_step:
  assumes "k < 2 ^ 32" and "step < 2 ^ 32" and "upd = next_boundary step k mod 2 ^ 32"
  shows "(if k = upd then u32_add upd step else upd) = next_boundary step (Suc k) mod 2 ^ 32"
proof (cases "k = next_boundary step k")
  case True
  then have "k = upd"
    using next_boundary_test [OF assms(1,2)] assms(3) by simp
  moreover have "u32_add upd step = next_boundary step (Suc k) mod 2 ^ 32"
    unfolding next_boundary_hit [OF True] u32_add_def assms(3) by (simp add: mod_add_left_eq)
  ultimately show ?thesis by simp
next
  case False
  then have "k \<noteq> upd"
    using next_boundary_test [OF assms(1,2)] assms(3) by simp
  then show ?thesis
    by (simp add: next_boundary_miss [OF False] assms(3))
qed

lemma em_loop_upd:
  assumes "em_loop ops uninit obs times_v weights L sampling version control_EM avail thrds k 0
             (em_init model control_EM ctx) = Continue s"
    and "k \<le> 2 ^ 32" and "update_step_size control_EM < 2 ^ 32"
  shows "em_update_step_size s = next_boundary (update_step_size control_EM) k mod 2 ^ 32"
  using assms(1,2)
proof (induction k arbitrary: s)
  case 0
  then have "s = em_init model control_EM ctx"
    by simp
  then show ?case
    using assms(3) by (simp add: em_init_def next_boundary_0)
next
  case (Suc k)
  from Suc.prems(1) have
    "(case em_loop ops uninit obs times_v weights L sampling version control_EM avail thrds k 0
             (em_init model control_EM ctx) of
        Break s \<Rightarrow> Break s
      | Continue s' \<Rightarrow>
          em_body ops uninit obs times_v weights L sampling version control_EM avail thrds
            (0 + k) s') = Continue s"
    by (simp only: em_loop_snoc)
  then obtain s' where
    l: "em_loop ops uninit obs times_v weights L sampling version control_EM avail thrds k 0
             (em_init model control_EM ctx) = Continue s'"
    and b: "em_body ops uninit obs times_v weights L sampling version control_EM avail thrds k s'
            = Continue s"
    by (auto split: flow.splits)
  from Suc.prems(2) have k: "k < 2 ^ 32" "k \<le> 2 ^ 32" by simp_all
  note IH = Suc.IH [OF l k(2)]
  show ?case
    unfolding em_body_upd [OF b] by (rule boundary_step [OF k(1) assms(3) IH])
qed

text \<open>
  C5. Let \<open>max_iter = n + 1\<close> and the step size be 32-bit values, and let the loop run
  its first \<open>n\<close> iterations and pass the head of iteration \<open>n\<close> without a \<open>break\<close>, to
  the state \<open>s3\<close> after the window sums of the last iteration. Then the window sums are
  divided by \<open>max_iter - update_step_size + control_EM.update_step_size\<close> in 32-bit
  arithmetic, which is the number of iterations since the last boundary,
  \<open>max_iter - step \<cdot> (n div step)\<close>; the model's \<open>lambda\<close>, \<open>epsilon\<close> and \<open>llhood\<close> are
  overwritten with these averages, and the averaged log-likelihood is returned.
\<close>

theorem MCEM_hcbn_final_window:
  assumes "max_iter control_EM = Suc n" and "max_iter control_EM < 2 ^ 32"
    and "update_step_size control_EM < 2 ^ 32"
    and "em_loop ops uninit obs times_v weights L sampling version control_EM avail thrds n 0
           (em_init model control_EM ctx) = Continue s1"
    and "window_boundary control_EM n s1 = Continue s2"
  shows "let s3 = em_iteration ops uninit obs times_v weights L sampling version control_EM avail
                    thrds s2;
             num = u32_add (u32_sub (max_iter control_EM) (em_update_step_size s3))
                     (update_step_size control_EM);
             avg_lambda = map (\<lambda>x. ddiv x (of_count num)) (em_avg_lambda_current s3);
             avg_eps = ddiv (em_avg_eps_current s3) (of_count num);
             avg_llhood = ddiv (em_avg_llhood s3) (of_count num)
         in num = max_iter control_EM
                    - update_step_size control_EM * (n div update_step_size control_EM) \<and>
            MCEM_hcbn ops uninit model obs times_v weights L sampling version control_EM avail
              thrds ctx
            = (avg_llhood,
               (em_model s3)\<lparr>lambda := avg_lambda, epsilon := avg_eps, llhood := avg_llhood\<rparr>,
               em_ctx s3)"
proof -
  define s3 where "s3 = em_iteration ops uninit obs times_v weights L sampling version control_EM
    avail thrds s2"
  have n: "n < 2 ^ 32" "n \<le> 2 ^ 32"
    using assms(1,2) by simp_all
  have u1: "em_update_step_size s1 = next_boundary (update_step_size control_EM) n mod 2 ^ 32"
    by (rule em_loop_upd [OF assms(4) n(2) assms(3)])
  have "em_update_step_size s3 = em_update_step_size s2"
    by (simp add: s3_def em_iteration_upd)
  then have u3: "em_update_step_size s3
                 = next_boundary (update_step_size control_EM) (Suc n) mod 2 ^ 32"
    using boundary_step [OF n(1) assms(3) u1] window_boundary_upd [OF assms(5)] by simp
  have num: "u32_add (u32_sub (max_iter control_EM) (em_update_step_size s3))
               (update_step_size control_EM)
             = max_iter control_EM
                 - update_step_size control_EM * (n div update_step_size control_EM)"
    by (rule num_iter_count [OF assms(1,2,3) u3])
  have body: "em_body ops uninit obs times_v weights L sampling version control_EM avail thrds n s1
              = Continue (final_average control_EM s3)"
    using assms(1,5) by (simp add: em_body_def s3_def Let_def)
  have loop: "em_loop ops uninit obs times_v weights L sampling version control_EM avail thrds
                (max_iter control_EM) 0 (em_init model control_EM ctx)
              = Continue (final_average control_EM s3)"
    unfolding assms(1) em_loop_snoc assms(4) using body by simp
  show ?thesis
    unfolding Let_def s3_def [symmetric] num [symmetric]
    using num
    by (simp add: MCEM_hcbn_def loop Let_def final_average_def num_iter_def set_lambda_def
        set_epsilon_def set_llhood_def)
qed


section \<open>Running the driver\<close>

text \<open>The iterations of the driver on the one-event model, evaluated step by step.\<close>

lemma dadd_NaN_right [simp]: "dadd x NaN = NaN"
  by (cases x) simp_all

lemma dmul_NaN_right [simp]: "dmul x NaN = NaN"
  by (cases x) simp_all

lemma ddiv_NaN_right [simp]: "ddiv x NaN = NaN"
  by (cases x) simp_all

lemma forward_record_eq:
  "importance_weight ops uninit genotype L model time ''forward'' version rng avail
   = (let sim = sample_genotypes ops L model (replicate L time) rng avail;
          dv = hamming_dist_mat (sim_obs sim) genotype
      in (\<lparr>is_w = map (proposal_weight (epsilon model) (msize model)) dv, is_dist = dv,
           is_Tdiff = sim_T_events sim\<rparr>, sim_rng sim))"
  by (simp add: importance_weight_def Let_def)

lemma importance_weight_each_single:
  assumes "length obs = 1"
    and "thread_num ops thrds 1 0 = t"
    and "importance_weight ops uninit (obs ! 0) L model (times_v ! 0) sampling version (rngs ! t)
           avail = (r, g)"
  shows "importance_weight_each ops uninit obs L model times_v sampling version avail thrds
           [0..<length obs] rngs = ([r], rngs[t := g])"
  using assms by (simp add: Let_def)

lemma em_iteration_eval:
  assumes "get_auxiliary_rngs ops thrds (em_ctx st) = (rngs, ctx1)"
    and "importance_weight_each ops uninit obs L (em_model st) times_v sampling version avail
           thrds [0..<length obs] rngs = (rs, rngs')"
    and "map (expected_stats (msize (em_model st))) rs = stats"
    and "to_float (dsum weights) = W"
    and "m_step control_EM (em_model st) weights W (length obs) (map fst stats) (map snd stats)
         = model'"
    and "complete_log_likelihood (lambda model') (epsilon model') (map snd stats)
           (map fst stats) W = ll"
  shows "em_iteration ops uninit obs times_v weights L sampling version control_EM avail thrds st
         = st\<lparr>em_model := model', em_ctx := ctx1, em_llhood := ll,
              em_avg_lambda_current := map2 dadd (em_avg_lambda_current st) (lambda model'),
              em_avg_eps_current := dadd (em_avg_eps_current st) (epsilon model'),
              em_avg_llhood := dadd (em_avg_llhood st) ll\<rparr>"
proof -
  have 1: "map (\<lambda>r. fst (expected_stats (msize (em_model st)) r)) rs = map fst stats"
    and 2: "map (\<lambda>r. snd (expected_stats (msize (em_model st)) r)) rs = map snd stats"
    using assms(3) by auto
  show ?thesis
    unfolding em_iteration_def Let_def assms(1) assms(2) split_conv fst_conv snd_conv 1 2
      assms(4) assms(5) assms(6) ..
qed

lemma float_quantum_one: "float_quantum 1 = 1 / 2 ^ 23"
  by (simp add: float_quantum_def powr_neg_numeral)

lemma to_float_one: "to_float (dsum [Fin 1]) = Fin 1"
  by (simp add: float_round_def float_quantum_one round_even_def)

lemma log2_inverse_power: "\<lfloor>log 2 \<bar>1 / 2 ^ n :: real\<bar>\<rfloor> = - int n"
proof -
  have "log 2 \<bar>1 / 2 ^ n :: real\<bar> = of_int (- int n)"
    by (simp add: log_divide log_nat_power)
  then show ?thesis
    by (simp only: floor_of_int)
qed

lemma float_quantum_tiny: "float_quantum (1 / 2 ^ 200) = 1 / 2 ^ 149"
proof -
  have "\<lfloor>log 2 \<bar>1 / 2 ^ 200 :: real\<bar>\<rfloor> = - 200"
    using log2_inverse_power [of 200] by simp
  then show ?thesis
    unfolding float_quantum_def by (simp add: powr_neg_numeral)
qed

lemma to_float_tiny: "to_float (dsum [Fin (1 / 2 ^ 200)]) = Fin 0"
proof -
  have "(1 / 2 ^ 200 :: real) / (1 / 2 ^ 149) = 1 / 2 ^ 51"
    by simp
  moreover have "\<lfloor>1 / 2 ^ 51 :: real\<rfloor> = 0"
    by simp
  ultimately have "float_round (1 / 2 ^ 200) = 0"
    unfolding float_round_def float_quantum_tiny by (simp add: round_even_def)
  then show ?thesis
    by simp
qed

lemma checked_single:
  "checked_Model descending
     (set_epsilon (set_lambda (new_Model (adjacency_mat2list [[0]]) (length [[0 :: int]]) (Fin 1)
        NaN) [Fin 1]) (Fin 0)) = Inr single"
proof -
  have "adjacency_mat2list [[0]] = []"
    by (simp add: adjacency_mat2list_def)
  then show ?thesis
    by (simp add: checked_Model_eq new_Model_def set_lambda_def set_epsilon_def directed_cycle_def
        descending_def single_def)
qed

lemma thread0: "thread_num counter_ops thrds N i = 0"
  by (simp add: counter_ops_def)

lemma run_iter0:
  "em_iteration counter_ops blank [[True]] [Fin 3] [Fin 1] 1 ''forward'' 0 control2 True 1 run0
   = run1"
proof -
  have m: "em_model run0 = single" and c: "em_ctx run0 = 0"
    by (simp_all add: run0_def em_init_def)
  have 1: "get_auxiliary_rngs counter_ops 1 (em_ctx run0) = ([0], 1)"
    unfolding c by code_simp
  have fw: "importance_weight counter_ops blank ([[True]] ! 0) 1 single ([Fin 3] ! 0) ''forward''
              0 ([0] ! 0) True
            = (\<lparr>is_w = [Fin 1], is_dist = [0], is_Tdiff = [[Fin 0]]\<rparr>, 1)"
    unfolding forward_record_eq by code_simp
  have 2: "importance_weight_each counter_ops blank [[True]] 1 (em_model run0) [Fin 3] ''forward''
             0 True 1 [0..<length [[True]]] [0]
           = ([\<lparr>is_w = [Fin 1], is_dist = [0], is_Tdiff = [[Fin 0]]\<rparr>], [0][0 := 1])"
    unfolding m by (rule importance_weight_each_single [OF _ thread0 fw]) simp
  have 3: "map (expected_stats (msize (em_model run0)))
             [\<lparr>is_w = [Fin 1], is_dist = [0], is_Tdiff = [[Fin 0]]\<rparr>] = [(Fin 0, [Fin 0])]"
    unfolding m by code_simp
  have 4: "m_step control2 (em_model run0) [Fin 1] (Fin 1) (length [[True]])
             (map fst [(Fin 0, [Fin 0])]) (map snd [(Fin 0, [Fin 0 :: dbl])])
           = single\<lparr>epsilon := Fin 0, lambda := [Fin 1000000]\<rparr>"
    unfolding m by code_simp
  have 5: "complete_log_likelihood (lambda (single\<lparr>epsilon := Fin 0, lambda := [Fin 1000000]\<rparr>))
             (epsilon (single\<lparr>epsilon := Fin 0, lambda := [Fin 1000000]\<rparr>))
             (map snd [(Fin 0, [Fin 0 :: dbl])]) (map fst [(Fin 0, [Fin 0 :: dbl])]) (Fin 1)
           = Fin (ln 1000000)"
    by (simp add: complete_log_likelihood_def deq_Fin ddot_def dsub_def)
  show ?thesis
    unfolding em_iteration_eval [OF 1 2 3 to_float_one 4 5]
    by (simp add: run1_def run0_def em_init_def single_def)
qed

lemma run_boundary1: "window_boundary control2 1 run1 = Continue run2"
  by (simp add: window_boundary_def run2_def run1_def run0_def em_init_def control2_def
      single_def of_count_def dsub_def u32_add_def Let_def)

lemma run_iter1:
  "em_iteration counter_ops blank [[True]] [Fin 3] [Fin 1] 1 ''forward'' 0 control2 True 1 run2
   = run3"
proof -
  let ?m = "single\<lparr>epsilon := Fin 0, lambda := [Fin 1000000]\<rparr>"
  have m: "em_model run2 = ?m" and c: "em_ctx run2 = 1"
    by (simp_all add: run2_def run1_def)
  have 1: "get_auxiliary_rngs counter_ops 1 (em_ctx run2) = ([1], 2)"
    unfolding c by code_simp
  have fw: "importance_weight counter_ops blank ([[True]] ! 0) 1 ?m ([Fin 3] ! 0) ''forward''
              0 ([1] ! 0) True
            = (\<lparr>is_w = [Fin 1], is_dist = [0], is_Tdiff = [[Fin 1]]\<rparr>, 2)"
    unfolding forward_record_eq by code_simp
  have 2: "importance_weight_each counter_ops blank [[True]] 1 (em_model run2) [Fin 3] ''forward''
             0 True 1 [0..<length [[True]]] [1]
           = ([\<lparr>is_w = [Fin 1], is_dist = [0], is_Tdiff = [[Fin 1]]\<rparr>], [1][0 := 2])"
    unfolding m by (rule importance_weight_each_single [OF _ thread0 fw]) simp
  have 3: "map (expected_stats (msize (em_model run2)))
             [\<lparr>is_w = [Fin 1], is_dist = [0], is_Tdiff = [[Fin 1]]\<rparr>] = [(Fin 0, [Fin 1])]"
    unfolding m by code_simp
  have 4: "m_step control2 (em_model run2) [Fin 1] (Fin 1) (length [[True]])
             (map fst [(Fin 0, [Fin 1])]) (map snd [(Fin 0, [Fin 1 :: dbl])])
           = single\<lparr>epsilon := Fin 0, lambda := [Fin 1]\<rparr>"
    unfolding m by code_simp
  have 5: "complete_log_likelihood (lambda (single\<lparr>epsilon := Fin 0, lambda := [Fin 1]\<rparr>))
             (epsilon (single\<lparr>epsilon := Fin 0, lambda := [Fin 1]\<rparr>))
             (map snd [(Fin 0, [Fin 1 :: dbl])]) (map fst [(Fin 0, [Fin 1 :: dbl])]) (Fin 1)
           = Fin (- 1)"
    by (simp add: complete_log_likelihood_def deq_Fin ddot_def dsub_def)
  show ?thesis
    unfolding em_iteration_eval [OF 1 2 3 to_float_one 4 5]
    by (simp add: run3_def run2_def run1_def run0_def em_init_def single_def)
qed

lemma run_loop1:
  "em_loop counter_ops blank [[True]] [Fin 3] [Fin 1] 1 ''forward'' 0 control2 True 1 1 0
     (em_init single control2 0) = Continue run1"
proof -
  have wb: "window_boundary control2 0 run0 = Continue run0"
    by (simp add: window_boundary_def run0_def em_init_def control2_def)
  have mi: "max_iter control2 = 2"
    by (simp add: control2_def)
  have "em_body counter_ops blank [[True]] [Fin 3] [Fin 1] 1 ''forward'' 0 control2 True 1 0
               run0 = Continue run1"
    unfolding em_body_def wb flow.case Let_def run_iter0 mi by simp
  then show ?thesis
    unfolding run0_def [symmetric] One_nat_def em_loop.simps by simp
qed

theorem MCEM_hcbn_final_window_witness:
  "MCEM_hcbn counter_ops blank single [[True]] [Fin 3] [Fin 1] 1 ''forward'' 0 control2 True 1 0
   = (Fin (- 1), single\<lparr>lambda := [Fin 1], epsilon := Fin 0, llhood := Fin (- 1)\<rparr>, 2)"
proof -
  have h1: "max_iter control2 = Suc 1" and h2: "max_iter control2 < 2 ^ 32"
    and h3: "update_step_size control2 < 2 ^ 32"
    by (simp_all add: control2_def)
  show ?thesis
    using MCEM_hcbn_final_window [OF h1 h2 h3 run_loop1 run_boundary1]
    unfolding Let_def run_iter1
    by (simp add: run3_def run2_def run1_def run0_def control2_def u32_add_def u32_sub_def
        of_count_def single_def)
qed


section \<open>Importance weights that sum to zero\<close>













section \<open>The M-step outside the bounds\<close>

text \<open>
  The claim C6 as stated fails in two ways. A positive observation weight below the
  range of \<open>float\<close>, here \<open>1 / 2 ^ 200\<close>, leaves \<open>W = 0\<close>: with a positive \<open>s\<^sub>j\<close> the quotient
  \<open>s\<^sub>j / W\<close> is infinite, its inverse is the rate 0, and the run returns it. And a
  finite non-negative \<open>E_dist[i]\<close> above \<open>p\<close> gives \<open>\<epsilon> > 1\<close>, since \<open>\<epsilon>\<close> is not clamped: the
  value \<open>3 + 1 / 2 ^ 51\<close> is the \<open>double\<close> next above 3, which the E-step of the program
  returns for \<open>p = 3\<close>, \<open>\<epsilon> = 0.07\<close> and one forward sample at distance 3, where it rounds
  the product \<open>w \<cdot> 3\<close> and then the quotient by \<open>w\<close>.
\<close>

lemma underflow_iteration:
  "em_iteration counter_ops blank [[True]] [Fin 3] [Fin (1 / 2 ^ 200)] 1 ''forward'' 0 control1
     True 1 (em_init single control1 1)
   = (em_init single control1 1)\<lparr>em_model := single\<lparr>epsilon := Fin 0, lambda := [Fin 0]\<rparr>,
        em_ctx := 2, em_llhood := NaN, em_avg_lambda_current := [Fin 0],
        em_avg_eps_current := Fin 0, em_avg_llhood := NaN\<rparr>"
proof -
  let ?st = "em_init single control1 (1::nat)"
  have m: "em_model ?st = single" and c: "em_ctx ?st = 1"
    by (simp_all add: em_init_def)
  have 1: "get_auxiliary_rngs counter_ops 1 (em_ctx ?st) = ([1], 2)"
    unfolding c by code_simp
  have fw: "importance_weight counter_ops blank ([[True]] ! 0) 1 single ([Fin 3] ! 0) ''forward''
              0 ([1] ! 0) True
            = (\<lparr>is_w = [Fin 1], is_dist = [0], is_Tdiff = [[Fin 1]]\<rparr>, 2)"
    unfolding forward_record_eq by code_simp
  have 2: "importance_weight_each counter_ops blank [[True]] 1 (em_model ?st) [Fin 3] ''forward''
             0 True 1 [0..<length [[True]]] [1]
           = ([\<lparr>is_w = [Fin 1], is_dist = [0], is_Tdiff = [[Fin 1]]\<rparr>], [1][0 := 2])"
    unfolding m by (rule importance_weight_each_single [OF _ thread0 fw]) simp
  have 3: "map (expected_stats (msize (em_model ?st)))
             [\<lparr>is_w = [Fin 1], is_dist = [0], is_Tdiff = [[Fin 1]]\<rparr>] = [(Fin 0, [Fin 1])]"
    unfolding m by code_simp
  have 4: "m_step control1 (em_model ?st) [Fin (1 / 2 ^ 200)] (Fin 0) (length [[True]])
             (map fst [(Fin 0, [Fin 1])]) (map snd [(Fin 0, [Fin 1 :: dbl])])
           = single\<lparr>epsilon := Fin 0, lambda := [Fin 0]\<rparr>"
    unfolding m by code_simp
  have 5: "complete_log_likelihood (lambda (single\<lparr>epsilon := Fin 0, lambda := [Fin 0]\<rparr>))
             (epsilon (single\<lparr>epsilon := Fin 0, lambda := [Fin 0]\<rparr>))
             (map snd [(Fin 0, [Fin 1 :: dbl])]) (map fst [(Fin 0, [Fin 1 :: dbl])]) (Fin 0)
           = NaN"
    by (simp add: complete_log_likelihood_def deq_Fin ddot_def dsub_def)
  show ?thesis
    unfolding em_iteration_eval [OF 1 2 3 to_float_tiny 4 5]
    by (simp add: em_init_def single_def)
qed

theorem m_step_out_of_range:
  "lambda (em_model (em_iteration counter_ops blank [[True]] [Fin 3] [Fin (1 / 2 ^ 200)] 1
      ''forward'' 0 control1 True 1 (em_init single control1 1))) = [Fin 0] \<and>
   export_MCEM_hcbn counter_ops descending blank NaN [Fin 1] [[0]] [[True]] [Fin 3] (Fin 1) (Fin 0)
     [Fin (1 / 2 ^ 200)] 1 ''forward'' 0 1 20 (Fin (1 / 1000)) (Fin 1000000) True 1 False 1
     = Inr ([Fin 0], Fin 0, NaN) \<and>
   epsilon (m_step control1 three [Fin 1] (Fin 1) 1 [Fin (3 + 1 / 2 ^ 51)]
      [[Fin 1, Fin 1, Fin 1]]) = Fin ((3 + 1 / 2 ^ 51) / 3) \<and>
   \<not> dle (epsilon (m_step control1 three [Fin 1] (Fin 1) 1 [Fin (3 + 1 / 2 ^ 51)]
      [[Fin 1, Fin 1, Fin 1]])) (Fin 1)"
proof -
  let ?ws = "[Fin (1 / 2 ^ 200)]"
  let ?st = "em_init single control1 (1::nat)"
  have a: "lambda (em_model (em_iteration counter_ops blank [[True]] [Fin 3] ?ws 1
      ''forward'' 0 control1 True 1 ?st)) = [Fin 0]"
    unfolding underflow_iteration by simp
  have ctl: "\<lparr>max_iter = 1, update_step_size = 20, tol = Fin (1 / 1000),
               max_lambda = Fin 1000000\<rparr> = control1"
    by (simp add: control1_def)
  have seed: "seed_rng counter_ops 1 = 1"
    by (simp add: counter_ops_def)
  have wb: "window_boundary control1 0 ?st = Continue ?st"
    by (simp add: window_boundary_def em_init_def control1_def)
  have mi: "max_iter control1 = 1"
    by (simp add: control1_def)
  have body: "em_body counter_ops blank [[True]] [Fin 3] ?ws 1 ''forward'' 0 control1 True 1 0 ?st
              = Continue (final_average control1
                  (em_iteration counter_ops blank [[True]] [Fin 3] ?ws 1 ''forward'' 0
                     control1 True 1 ?st))"
    unfolding em_body_def wb flow.case Let_def mi by simp
  have loop: "em_loop counter_ops blank [[True]] [Fin 3] ?ws 1 ''forward'' 0 control1 True 1
                (max_iter control1) 0 ?st
              = Continue (final_average control1
                  (em_iteration counter_ops blank [[True]] [Fin 3] ?ws 1 ''forward'' 0
                     control1 True 1 ?st))"
    unfolding mi One_nat_def em_loop.simps using body by simp
  have run: "MCEM_hcbn counter_ops blank single [[True]] [Fin 3] ?ws 1 ''forward'' 0 control1
               True 1 1
             = (NaN, single\<lparr>lambda := [Fin 0], epsilon := Fin 0, llhood := NaN\<rparr>, 2)"
    unfolding MCEM_hcbn_def loop underflow_iteration
    by (simp add: final_average_def num_iter_def u32_add_def u32_sub_def control1_def
        of_count_def em_init_def set_lambda_def set_epsilon_def set_llhood_def single_def Let_def)
  have b: "export_MCEM_hcbn counter_ops descending blank NaN [Fin 1] [[0]] [[True]] [Fin 3] (Fin 1)
     (Fin 0) ?ws 1 ''forward'' 0 1 20 (Fin (1 / 1000)) (Fin 1000000) True 1 False 1
     = Inr ([Fin 0], Fin 0, NaN)"
    by (simp only: export_MCEM_hcbn_def Let_def checked_single sum.case ctl seed run split_conv)
       (simp add: single_def)
  have e: "epsilon (m_step control1 three [Fin 1] (Fin 1) 1 [Fin (3 + 1 / 2 ^ 51)]
      [[Fin 1, Fin 1, Fin 1]]) = Fin ((3 + 1 / 2 ^ 51) / 3)"
    by (simp add: m_step_def Let_def set_epsilon_def set_lambda_max_def three_def of_count_def)
  have "\<not> dle (Fin ((3 + 1 / 2 ^ 51) / 3)) (Fin 1)"
    by simp
  with a b e show ?thesis
    by (simp only: simp_thms)
qed


section \<open>No iteration at all\<close>

text \<open>
  C10. With \<open>max_iter = 0\<close> the loop body never runs: \<open>MCEM_hcbn\<close> returns 0 and
  overwrites the model's \<open>lambda\<close> with the all-zero vector, \<open>epsilon\<close> with 0 and \<open>llhood\<close>
  with 0, and the context is untouched; the exported function then returns these zeros
  for every acyclic poset, so that \<open>lambda[i] > 0\<close> does not hold of its result.
\<close>

theorem MCEM_hcbn_max_iter_zero:
  assumes "max_iter control_EM = 0"
  shows "MCEM_hcbn ops uninit model obs times_v weights L sampling version control_EM avail
           thrds ctx
         = (Fin 0,
            model\<lparr>lambda := replicate (msize model) (Fin 0), epsilon := Fin 0,
                  llhood := Fin 0\<rparr>,
            ctx) \<and>
         export_MCEM_hcbn ops tsort uninit junk ilambda poset_mat obs times_v lam_s eps weights
           L sampling version (max_iter control_EM) step tol_v mx avail thrds verbose seed
         = (if directed_cycle (adjacency_mat2list poset_mat) then Inl NotAcyclic
            else Inr (replicate (length poset_mat) (Fin 0), Fin 0, Fin 0))"
  using assms
  by (simp add: MCEM_hcbn_def em_init_def set_lambda_def set_epsilon_def set_llhood_def
      export_MCEM_hcbn_def checked_Model_eq new_Model_def Let_def)

theorem MCEM_hcbn_max_iter_zero_witness:
  "MCEM_hcbn counter_ops blank chain2 [[True, False]] [Fin 1] [Fin 1] 10 ''forward'' 0 control0
     False 1 0
   = (Fin 0, chain2\<lparr>lambda := [Fin 0, Fin 0], epsilon := Fin 0, llhood := Fin 0\<rparr>, 0)"
proof -
  have h: "max_iter control0 = 0"
    by (simp add: control0_def)
  have "msize chain2 = 2"
    by (simp add: chain2_def)
  then show ?thesis
    using MCEM_hcbn_max_iter_zero [OF h, of counter_ops blank chain2 "[[True, False]]" "[Fin 1]"
      "[Fin 1]" 10 "''forward''" 0 False 1 0]
    by (simp add: numeral_2_eq_2)
qed

end
